theory Spec2Isabelle
  imports Complex_Main "HOL-Library.AList" "HOL-Library.Multiset" "HOL-Library.Word"
begin

unbundle bit_operations_syntax

section \<open>The vector store of \<^verbatim>\<open>cpp_server\<close>\<close>

text \<open>
  The development follows \<^verbatim>\<open>vector_db.hpp\<close>, \<^verbatim>\<open>vector_db.cpp\<close>,
  \<^verbatim>\<open>embedder.hpp\<close>, the embedder's \<^verbatim>\<open>embed\<close> and \<^verbatim>\<open>server.cpp\<close>.

  Modelling decisions, valid for the whole file:
  \<^item> \<^verbatim>\<open>float\<close> is idealised as \<^typ>\<open>real\<close>: rounding, overflow to infinity and NaN are
    not modelled. Sums are accumulated in the order the loops of the source run.
  \<^item> \<^verbatim>\<open>std::string\<close> is \<^typ>\<open>string\<close>, a list of bytes.
  \<^item> \<^verbatim>\<open>std::unordered_map\<close> is an association list read with \<^const>\<open>map_of\<close>, written with
    \<^const>\<open>AList.update\<close> (overwrite in place, or append) and \<^const>\<open>AList.delete\<close>. Its
    iteration order, unspecified in C++, is the order of the list.
  \<^item> \<^verbatim>\<open>nlohmann::json\<close> is the datatype \<open>json\<close> below; the library's accessors are
    modelled after its documented behaviour, its exceptions as values of \<open>exn\<close>.
\<close>

subsection \<open>JSON values\<close>

datatype json =
    JNull
  | JBool bool
  | JInt int
  | JFloat real
  | JString string
  | JArray "json list"
  | JObject "(string \<times> json) list"

subsection \<open>Entries, results and the store (\<^verbatim>\<open>vector_db.hpp\<close>)\<close>

record VectorEntry =
  chunk_id :: string
  doc_id :: string
  "text" :: string
  metadata :: json
  embedding :: "real list"

text \<open>
  \<^verbatim>\<open>VectorDB::search\<close> initialises four members of each result (chunk id, score, text,
  metadata) while the header under \<^verbatim>\<open>src\<close> declares three. The record keeps the fourth, so
  that what a search response shows of it is decided by \<^verbatim>\<open>Server::handle_search\<close> alone.
\<close>

record SearchResult =
  r_chunk_id :: string
  score :: real
  r_text :: string
  r_metadata :: json

record VectorDB =
  entries :: "(string \<times> VectorEntry) list"
  doc_index :: "(string \<times> string list) list"

definition empty_db :: VectorDB where
  "empty_db = \<lparr>entries = [], doc_index = []\<rparr>"

text \<open>\<^verbatim>\<open>doc_index_[d]\<close>: the bucket of \<open>d\<close>, the empty vector when the key is absent.\<close>

definition bucket :: "(string \<times> string list) list \<Rightarrow> string \<Rightarrow> string list" where
  "bucket idx d = (case map_of idx d of None \<Rightarrow> [] | Some ids \<Rightarrow> ids)"

text \<open>The first half of \<^verbatim>\<open>VectorDB::store\<close>: unlink an overwritten chunk from its old bucket.\<close>

definition unlink_old ::
  "string \<Rightarrow> (string \<times> VectorEntry) list \<Rightarrow> (string \<times> string list) list
    \<Rightarrow> (string \<times> string list) list" where
  "unlink_old cid ents idx =
     (case map_of ents cid of
        None \<Rightarrow> idx
      | Some old \<Rightarrow>
          (let old_doc_id = doc_id old;
               ids = removeAll cid (bucket idx old_doc_id)
           in if ids = [] then AList.delete old_doc_id idx
              else AList.update old_doc_id ids idx))"

definition store ::
  "string \<Rightarrow> string \<Rightarrow> string \<Rightarrow> json \<Rightarrow> real list \<Rightarrow> VectorDB \<Rightarrow> VectorDB" where
  "store cid did txt meta emb db =
     (let idx = unlink_old cid (entries db) (doc_index db);
          ents = AList.update cid
                   \<lparr>chunk_id = cid, doc_id = did, text = txt, metadata = meta, embedding = emb\<rparr>
                   (entries db)
      in \<lparr>entries = ents, doc_index = AList.update did (bucket idx did @ [cid]) idx\<rparr>)"

text \<open>A store request as data, and a sequence of them run from the empty store.\<close>

record store_op =
  op_chunk :: string
  op_doc :: string
  op_text :: string
  op_meta :: json
  op_emb :: "real list"

definition apply_store :: "VectorDB \<Rightarrow> store_op \<Rightarrow> VectorDB" where
  "apply_store db p = store (op_chunk p) (op_doc p) (op_text p) (op_meta p) (op_emb p) db"

definition stores :: "store_op list \<Rightarrow> VectorDB" where
  "stores ops = foldl apply_store empty_db ops"

text \<open>
  The consistency of the two maps: keys are unique, every entry is filed under its own
  chunk id and linked from the bucket of its document, every bucket is non-empty, free of
  repetitions, and holds only chunks whose entry names that document.
\<close>

definition entries_ok :: "VectorDB \<Rightarrow> bool" where
  "entries_ok db \<longleftrightarrow>
     distinct (map fst (entries db)) \<and>
     (\<forall>(c, e) \<in> set (entries db). chunk_id e = c \<and> c \<in> set (bucket (doc_index db) (doc_id e)))"

definition index_ok :: "VectorDB \<Rightarrow> bool" where
  "index_ok db \<longleftrightarrow>
     distinct (map fst (doc_index db)) \<and>
     (\<forall>(d, ids) \<in> set (doc_index db).
        ids \<noteq> [] \<and> distinct ids \<and>
        (\<forall>c \<in> set ids.
           (case map_of (entries db) c of None \<Rightarrow> False | Some e \<Rightarrow> doc_id e = d)))"

definition store_inv :: "VectorDB \<Rightarrow> bool" where
  "store_inv db \<longleftrightarrow> entries_ok db \<and> index_ok db"

subsection \<open>Search (\<^verbatim>\<open>VectorDB::search\<close>, \<^verbatim>\<open>VectorDB::dot_product\<close>)\<close>

text \<open>The loop of \<^verbatim>\<open>dot_product\<close>: \<^verbatim>\<open>sum += a[i] * b[i]\<close> for \<open>i\<close> below the shorter length.\<close>

definition dot_product :: "real list \<Rightarrow> real list \<Rightarrow> real" where
  "dot_product a b =
     foldl (\<lambda>sum i. sum + a ! i * b ! i) 0 [0..<min (length a) (length b)]"

text \<open>
  The entries a search scores. A non-empty filter walks the bucket of that document and
  skips chunk ids without an entry; the empty filter scans every entry.
\<close>

definition candidates :: "VectorDB \<Rightarrow> string \<Rightarrow> VectorEntry list" where
  "candidates db doc_id_filter =
     (if doc_id_filter \<noteq> [] then
        (case map_of (doc_index db) doc_id_filter of
           None \<Rightarrow> []
         | Some ids \<Rightarrow> List.map_filter (map_of (entries db)) ids)
      else map snd (entries db))"

definition scored :: "real list \<Rightarrow> VectorDB \<Rightarrow> string \<Rightarrow> (real \<times> VectorEntry) list" where
  "scored query_embedding db doc_id_filter =
     map (\<lambda>e. (dot_product query_embedding (embedding e), e)) (candidates db doc_id_filter)"

text \<open>
  \<^verbatim>\<open>std::sort\<close> with the comparator \<^verbatim>\<open>a.first > b.first\<close> sees the scores only, and
  the order it gives to equal scores is unspecified. It is a parameter of the model: a
  function from the list of scores to the order in which the positions come out.
  \<open>sorts_descending\<close> is what the C++ standard promises of it.
\<close>

type_synonym sorter = "real list \<Rightarrow> nat list"

definition sorts_descending :: "sorter \<Rightarrow> bool" where
  "sorts_descending srt \<longleftrightarrow>
     (\<forall>ks. mset (srt ks) = mset [0..<length ks] \<and>
           sorted_wrt (\<lambda>i j. ks ! j \<le> ks ! i) (srt ks))"

definition std_sort :: "sorter \<Rightarrow> (real \<times> 'a) list \<Rightarrow> (real \<times> 'a) list" where
  "std_sort srt xs = map (\<lambda>i. xs ! i) (srt (map fst xs))"

text \<open>A sorter that meets the promise: the stable insertion sort of the positions.\<close>

definition stable_sorter :: sorter where
  "stable_sorter ks = sort_key (\<lambda>i. - (ks ! i)) [0..<length ks]"

text \<open>
  \<^verbatim>\<open>top_k\<close> is a C++ \<^verbatim>\<open>int\<close>, here an \<^typ>\<open>int\<close>; the number of candidates is assumed
  to fit one. The loop \<^verbatim>\<open>for (i = 0; i < count; ++i)\<close> copies the first \<open>count\<close> pairs, none
  when \<open>count\<close> is not positive.
\<close>

definition to_result :: "real \<times> VectorEntry \<Rightarrow> SearchResult" where
  "to_result p =
     \<lparr>r_chunk_id = chunk_id (snd p), score = fst p, r_text = text (snd p),
      r_metadata = metadata (snd p)\<rparr>"

definition search :: "sorter \<Rightarrow> real list \<Rightarrow> int \<Rightarrow> string \<Rightarrow> VectorDB \<Rightarrow> SearchResult list" where
  "search srt query_embedding top_k doc_id_filter db =
     (let sc = std_sort srt (scored query_embedding db doc_id_filter);
          count = min top_k (int (length sc))
      in map to_result (take (nat count) sc))"

subsection \<open>The embedder (\<^verbatim>\<open>embedder.hpp\<close>, \<^verbatim>\<open>embed\<close>)\<close>

definition EMBED_DIM :: nat where
  "EMBED_DIM = 4096"

text \<open>
  \<^verbatim>\<open>std::isalnum\<close> and \<^verbatim>\<open>std::tolower\<close> on an \<^verbatim>\<open>unsigned char\<close>, in the "C" locale (the
  program never sets another): the ASCII digits and letters.
\<close>

definition isalnum :: "char \<Rightarrow> bool" where
  "isalnum c \<longleftrightarrow>
     (let n = (of_char c :: nat)
      in (48 \<le> n \<and> n \<le> 57) \<or> (65 \<le> n \<and> n \<le> 90) \<or> (97 \<le> n \<and> n \<le> 122))"

definition tolower :: "char \<Rightarrow> char" where
  "tolower c = (let n = (of_char c :: nat) in if 65 \<le> n \<and> n \<le> 90 then char_of (n + 32) else c)"

text \<open>
  \<^verbatim>\<open>std::hash<std::string>\<close> is the standard library's; it is a parameter \<open>h\<close> of the
  model. \<open>bump\<close> is \<^verbatim>\<open>vec[h(token) % EMBED_DIM] += 1.0f\<close>.
\<close>

definition bump :: "(string \<Rightarrow> nat) \<Rightarrow> string \<Rightarrow> real list \<Rightarrow> real list" where
  "bump h token vec = (let i = h token mod EMBED_DIM in vec[i := vec ! i + 1])"

text \<open>The loop over the characters of the text, on the pair of the running token and the vector.\<close>

fun embed_scan :: "(string \<Rightarrow> nat) \<Rightarrow> string \<Rightarrow> string \<Rightarrow> real list \<Rightarrow> string \<times> real list" where
  "embed_scan h [] token vec = (token, vec)"
| "embed_scan h (c # cs) token vec =
     (if isalnum c then embed_scan h cs (token @ [tolower c]) vec
      else if token \<noteq> [] then embed_scan h cs [] (bump h token vec)
      else embed_scan h cs token vec)"

text \<open>The vector before normalisation: the scan, then the token still open at the end.\<close>

definition embed_counts :: "(string \<Rightarrow> nat) \<Rightarrow> string \<Rightarrow> real list" where
  "embed_counts h txt =
     (case embed_scan h txt [] (replicate EMBED_DIM 0) of
        (token, vec) \<Rightarrow> if token \<noteq> [] then bump h token vec else vec)"

text \<open>\<^verbatim>\<open>norm += v * v\<close> over the vector, from \<^verbatim>\<open>0.0f\<close>.\<close>

definition sum_squares :: "real list \<Rightarrow> real" where
  "sum_squares vec = foldl (\<lambda>norm v. norm + v * v) 0 vec"

definition embed :: "(string \<Rightarrow> nat) \<Rightarrow> string \<Rightarrow> real list" where
  "embed h txt =
     (let vec = embed_counts h txt;
          norm = sum_squares vec
      in if norm > 0 then map (\<lambda>v. v / sqrt norm) vec else vec)"

text \<open>
  For the statements about the embedder: the tokens of a text (the maximal runs of
  alphanumeric characters, lower-cased), and the L2 norm of a vector.
\<close>

fun tokens_from :: "string \<Rightarrow> string \<Rightarrow> string list" where
  "tokens_from [] token = (if token \<noteq> [] then [token] else [])"
| "tokens_from (c # cs) token =
     (if isalnum c then tokens_from cs (token @ [tolower c])
      else if token \<noteq> [] then token # tokens_from cs []
      else tokens_from cs token)"

definition tokenize :: "string \<Rightarrow> string list" where
  "tokenize txt = tokens_from txt []"


section \<open>The protocol server (\<^verbatim>\<open>server.cpp\<close>)\<close>

subsection \<open>Exceptions and the JSON accessors used by the server\<close>

text \<open>
  The exceptions that reach \<^verbatim>\<open>handle_connection\<close>: the library's \<^verbatim>\<open>parse_error\<close> and
  \<^verbatim>\<open>type_error\<close> (with its number), and the \<^verbatim>\<open>std::runtime_error\<close> of the framing code.
  All three derive from \<^verbatim>\<open>std::exception\<close>; \<open>what\<close> is the message.
\<close>

datatype exn =
    ParseError string
  | TypeError nat string
  | RuntimeError string

fun what :: "exn \<Rightarrow> string" where
  "what (ParseError m) = m"
| "what (TypeError n m) = m"
| "what (RuntimeError m) = m"

fun type_name :: "json \<Rightarrow> string" where
  "type_name JNull = ''null''"
| "type_name (JBool b) = ''boolean''"
| "type_name (JInt n) = ''number''"
| "type_name (JFloat r) = ''number''"
| "type_name (JString s) = ''string''"
| "type_name (JArray xs) = ''array''"
| "type_name (JObject kv) = ''object''"

text \<open>\<^verbatim>\<open>j.contains(key)\<close>: false on anything but an object.\<close>

fun contains :: "json \<Rightarrow> string \<Rightarrow> bool" where
  "contains (JObject kv) key = (map_of kv key \<noteq> None)"
| "contains j key = False"

text \<open>
  \<^verbatim>\<open>j[key]\<close> on a constant value. The server reads a key only after \<^verbatim>\<open>contains\<close> said
  yes; elsewhere the library asserts, and the model answers \<open>JNull\<close>.
\<close>

fun at_key :: "json \<Rightarrow> string \<Rightarrow> json" where
  "at_key (JObject kv) key = (case map_of kv key of Some v \<Rightarrow> v | None \<Rightarrow> JNull)"
| "at_key j key = JNull"

fun is_string :: "json \<Rightarrow> bool" where
  "is_string (JString s) = True"
| "is_string j = False"

text \<open>\<^verbatim>\<open>get_ref<const std::string&>()\<close>: type error 303 on anything but a string.\<close>

fun get_ref_string :: "json \<Rightarrow> exn + string" where
  "get_ref_string (JString s) = Inr s"
| "get_ref_string j =
     Inl (TypeError 303 (''incompatible ReferenceType for get_ref, actual type is '' @ type_name j))"

text \<open>\<^verbatim>\<open>get<std::string>()\<close>: type error 302 on anything but a string.\<close>

fun get_string :: "json \<Rightarrow> exn + string" where
  "get_string (JString s) = Inr s"
| "get_string j = Inl (TypeError 302 (''type must be string, but is '' @ type_name j))"

text \<open>
  \<^verbatim>\<open>get<int>()\<close>: a \<^verbatim>\<open>static_cast<int>\<close> of a number or a boolean, type error 302 otherwise.
  \<open>to_int32\<close> is the conversion of an integer to a 32-bit \<^verbatim>\<open>int\<close>; a floating-point
  number is truncated towards zero first (out of range the C++ cast is undefined; the model
  wraps there too).
\<close>

definition to_int32 :: "int \<Rightarrow> int" where
  "to_int32 n = (n + 2 ^ 31) mod 2 ^ 32 - 2 ^ 31"

definition truncate :: "real \<Rightarrow> int" where
  "truncate r = (if 0 \<le> r then \<lfloor>r\<rfloor> else \<lceil>r\<rceil>)"

fun get_int :: "json \<Rightarrow> exn + int" where
  "get_int (JInt n) = Inr (to_int32 n)"
| "get_int (JFloat r) = Inr (to_int32 (truncate r))"
| "get_int (JBool b) = Inr (if b then 1 else 0)"
| "get_int j = Inl (TypeError 302 (''type must be number, but is '' @ type_name j))"

text \<open>
  \<^verbatim>\<open>j.value(key, default)\<close>: the converted member when the key is there, the default when it
  is not, type error 306 when \<open>j\<close> is no object.
\<close>

fun value_with :: "(json \<Rightarrow> exn + 'a) \<Rightarrow> json \<Rightarrow> string \<Rightarrow> 'a \<Rightarrow> exn + 'a" where
  "value_with conv (JObject kv) key dflt =
     (case map_of kv key of Some v \<Rightarrow> conv v | None \<Rightarrow> Inr dflt)"
| "value_with conv j key dflt = Inl (TypeError 306 (''cannot use value() with '' @ type_name j))"

subsection \<open>Dispatch (\<^verbatim>\<open>dispatch\<close>, \<^verbatim>\<open>handle_store\<close>, \<^verbatim>\<open>handle_search\<close>)\<close>

definition error_response :: "string \<Rightarrow> json" where
  "error_response msg = JObject [(''status'', JString ''error''), (''message'', JString msg)]"

definition ok_response :: json where
  "ok_response = JObject [(''status'', JString ''ok'')]"

text \<open>
  A handler returns the response and the store after it, or the exception it threw. Every
  throwing step of \<^verbatim>\<open>handle_store\<close> comes before the call of \<^verbatim>\<open>db_.store\<close>, so an
  exception leaves the store as it was.
\<close>

definition handle_store :: "(string \<Rightarrow> nat) \<Rightarrow> json \<Rightarrow> VectorDB \<Rightarrow> exn + json \<times> VectorDB" where
  "handle_store h request db =
     (if \<not> contains request ''chunk_id'' \<or> \<not> contains request ''doc_id''
         \<or> \<not> contains request ''text''
      then Inr (error_response ''store requires chunk_id, doc_id, and text'', db)
      else
        (case get_ref_string (at_key request ''chunk_id'') of Inl e \<Rightarrow> Inl e | Inr cid \<Rightarrow>
        (case get_ref_string (at_key request ''doc_id'') of Inl e \<Rightarrow> Inl e | Inr did \<Rightarrow>
        (case get_ref_string (at_key request ''text'') of Inl e \<Rightarrow> Inl e | Inr txt \<Rightarrow>
        (case value_with Inr request ''metadata'' (JObject []) of Inl e \<Rightarrow> Inl e | Inr meta \<Rightarrow>
          Inr (ok_response, store cid did txt meta (embed h txt) db))))))"

definition result_json :: "SearchResult \<Rightarrow> json" where
  "result_json r =
     JObject [(''chunk_id'', JString (r_chunk_id r)), (''score'', JFloat (score r)),
              (''text'', JString (r_text r))]"

definition handle_search ::
  "sorter \<Rightarrow> (string \<Rightarrow> nat) \<Rightarrow> json \<Rightarrow> VectorDB \<Rightarrow> exn + json \<times> VectorDB" where
  "handle_search srt h request db =
     (if \<not> contains request ''query''
      then Inr (error_response ''search requires query'', db)
      else
        (case get_ref_string (at_key request ''query'') of Inl e \<Rightarrow> Inl e | Inr query \<Rightarrow>
        (case value_with get_int request ''top_k'' 5 of Inl e \<Rightarrow> Inl e | Inr top_k \<Rightarrow>
        (case value_with get_string request ''doc_id'' [] of Inl e \<Rightarrow> Inl e
         | Inr doc_id_filter \<Rightarrow>
          (let results = search srt (embed h query) top_k doc_id_filter db
           in Inr (JObject [(''status'', JString ''ok''),
                            (''results'', JArray (map result_json results))], db))))))"

definition dispatch ::
  "sorter \<Rightarrow> (string \<Rightarrow> nat) \<Rightarrow> json \<Rightarrow> VectorDB \<Rightarrow> exn + json \<times> VectorDB" where
  "dispatch srt h request db =
     (if \<not> contains request ''action'' \<or> \<not> is_string (at_key request ''action'')
      then Inr (error_response (''Missing or invalid '' @ [CHR 0x27] @ ''action'' @ [CHR 0x27]
                                 @ '' field''), db)
      else
        case get_ref_string (at_key request ''action'') of Inl e \<Rightarrow> Inl e | Inr action \<Rightarrow>
          if action = ''store'' then handle_store h request db
          else if action = ''search'' then handle_search srt h request db
          else Inr (error_response (''Unknown action: '' @ action), db))"

subsection \<open>Framing (\<^verbatim>\<open>read_message\<close>, \<^verbatim>\<open>write_message\<close>)\<close>

text \<open>
  What the peer sends is a list of segments: each \<^verbatim>\<open>read\<close> finds the first segment, takes
  at most the bytes asked for and leaves the rest of it for the next call. An empty
  segment, or none left, is a \<^verbatim>\<open>read\<close> that returns \<^verbatim>\<open>n <= 0\<close> (end of stream or error).
  \<open>read_exact\<close> is the loop \<^verbatim>\<open>while (total < want)\<close> around it; \<open>None\<close> is its
  \<^verbatim>\<open>throw\<close>.
\<close>

function read_exact :: "nat \<Rightarrow> string list \<Rightarrow> (string \<times> string list) option" where
  "read_exact want segs =
     (if want = 0 then Some ([], segs)
      else case segs of
        [] \<Rightarrow> None
      | seg # rest \<Rightarrow>
          if seg = [] then None
          else (case read_exact (want - length (take want seg))
                       (if drop want seg = [] then rest else drop want seg # rest) of
                  None \<Rightarrow> None
                | Some (bytes, left) \<Rightarrow> Some (take want seg @ bytes, left)))"
  by pat_completeness auto
termination
  by (relation "measure fst") (auto simp: min_def neq_Nil_conv)

text \<open>The four bytes of the header, big-endian, as the \<^verbatim>\<open>uint32_t\<close> the shifts build.\<close>

definition be32 :: "string \<Rightarrow> 32 word" where
  "be32 len_buf =
     push_bit 24 (of_char (len_buf ! 0)) OR push_bit 16 (of_char (len_buf ! 1))
       OR push_bit 8 (of_char (len_buf ! 2)) OR of_char (len_buf ! 3)"

text \<open>\<^verbatim>\<open>std::to_string\<close> of an unsigned number.\<close>

fun to_string :: "nat \<Rightarrow> string" where
  "to_string n =
     (if n < 10 then [char_of (48 + n)] else to_string (n div 10) @ [char_of (48 + n mod 10)])"

definition read_message :: "string list \<Rightarrow> exn + string" where
  "read_message segs =
     (case read_exact 4 segs of
        None \<Rightarrow> Inl (RuntimeError ''Failed to read message length'')
      | Some (len_buf, rest) \<Rightarrow>
          (let length = be32 len_buf
           in if length = 0 \<or> length > 10 * 1024 * 1024
              then Inl (RuntimeError (''Invalid message length: '' @ to_string (unat length)))
              else (case read_exact (unat length) rest of
                      None \<Rightarrow> Inl (RuntimeError ''Failed to read message payload'')
                    | Some (payload, left) \<Rightarrow> Inr payload)))"

text \<open>
  \<^verbatim>\<open>json::dump\<close> is the library's; it is the parameter \<open>dump\<close> of the model, and \<open>Inl\<close>
  is the exception it throws (its \<^verbatim>\<open>type_error\<close> on a string that is not UTF-8).

  A call of \<^verbatim>\<open>write_message\<close> completes, or one of its two loops meets a \<^verbatim>\<open>write\<close> that
  returns \<^verbatim>\<open>n <= 0\<close> and throws, or a \<^verbatim>\<open>write\<close> to a peer that has closed the connection
  raises \<^verbatim>\<open>SIGPIPE\<close>. The server installs handlers for \<^verbatim>\<open>SIGINT\<close> and \<^verbatim>\<open>SIGTERM\<close> only
  and writes with plain \<^verbatim>\<open>write\<close>, so the signal has its default action: the process ends
  there, and no \<^verbatim>\<open>catch\<close> sees it. Which of the four happens is the peer's doing, and part
  of the connection.

  Control that does not come back from a call is an \<open>abort\<close>: an exception on its way
  up, or the end of the process.
\<close>

datatype write_outcome = WriteOk | WriteFailsLength | WriteFailsPayload | WriteSigpipe

datatype abort = Thrown exn | Killed

fun write_message :: "write_outcome \<Rightarrow> string \<Rightarrow> abort + unit" where
  "write_message WriteOk msg = Inr ()"
| "write_message WriteFailsLength msg =
     Inl (Thrown (RuntimeError ''Failed to write message length''))"
| "write_message WriteFailsPayload msg =
     Inl (Thrown (RuntimeError ''Failed to write message payload''))"
| "write_message WriteSigpipe msg = Inl Killed"

subsection \<open>One connection (\<^verbatim>\<open>handle_connection\<close>)\<close>

text \<open>
  A connection: the segments the peer sends, and the fate of the first and of the second
  call of \<^verbatim>\<open>write_message\<close> on it (\<^verbatim>\<open>handle_connection\<close> makes at most two).
\<close>

record connection =
  reads :: "string list"
  write1 :: write_outcome
  write2 :: write_outcome

text \<open>
  The handler \<^verbatim>\<open>catch (const std::exception& e)\<close>: the error body is dumped and written
  inside a \<^verbatim>\<open>try\<close> of its own whose \<^verbatim>\<open>catch (...)\<close> ignores every exception. The signal is
  no exception. The result is the response that reached the peer, if any, and the store.
\<close>

definition on_exception ::
  "(json \<Rightarrow> exn + string) \<Rightarrow> exn \<Rightarrow> write_outcome \<Rightarrow> VectorDB
     \<Rightarrow> abort + json option \<times> VectorDB" where
  "on_exception dump e w db =
     (let err = error_response (what e)
      in case dump err of
           Inl e' \<Rightarrow> Inr (None, db)
         | Inr body \<Rightarrow>
             (case write_message w body of
                Inl (Thrown e') \<Rightarrow> Inr (None, db)
              | Inl Killed \<Rightarrow> Inl Killed
              | Inr u \<Rightarrow> Inr (Some err, db)))"

text \<open>
  The handler \<^verbatim>\<open>catch (const nlohmann::json::parse_error& e)\<close>: it dumps and writes the
  error body with no \<^verbatim>\<open>try\<close> around the call, so what the call throws leaves
  \<^verbatim>\<open>handle_connection\<close>.
\<close>

definition on_parse_error ::
  "(json \<Rightarrow> exn + string) \<Rightarrow> string \<Rightarrow> write_outcome \<Rightarrow> VectorDB
     \<Rightarrow> abort + json option \<times> VectorDB" where
  "on_parse_error dump m w db =
     (let err = error_response (''JSON parse error: '' @ m)
      in case dump err of
           Inl e' \<Rightarrow> Inl (Thrown e')
         | Inr body \<Rightarrow>
             (case write_message w body of
                Inl a \<Rightarrow> Inl a
              | Inr u \<Rightarrow> Inr (Some err, db)))"

text \<open>
  \<^verbatim>\<open>nlohmann::json::parse\<close> is the parameter \<open>parse\<close>: \<open>Inl\<close> carries the message of
  its \<^verbatim>\<open>parse_error\<close>. \<open>Inl\<close> as the result of \<open>handle_connection\<close> is an exception that
  leaves the function, or the end of the process inside it. An exception of the \<^verbatim>\<open>try\<close>
  block that is no \<^verbatim>\<open>parse_error\<close> (from \<open>read_message\<close>, \<open>dispatch\<close>, \<open>dump\<close> or the
  first \<open>write_message\<close>) goes to the handler of \<^verbatim>\<open>std::exception\<close>; after a failed
  first write the handler's write is the second of the connection.
\<close>

definition handle_connection ::
  "(string \<Rightarrow> string + json) \<Rightarrow> (json \<Rightarrow> exn + string) \<Rightarrow> sorter \<Rightarrow> (string \<Rightarrow> nat)
     \<Rightarrow> VectorDB \<Rightarrow> connection \<Rightarrow> abort + json option \<times> VectorDB" where
  "handle_connection parse dump srt h db conn =
     (case read_message (reads conn) of
        Inl e \<Rightarrow> on_exception dump e (write1 conn) db
      | Inr msg \<Rightarrow>
          (case parse msg of
             Inl m \<Rightarrow> on_parse_error dump m (write1 conn) db
           | Inr request \<Rightarrow>
               (case dispatch srt h request db of
                  Inl e \<Rightarrow> on_exception dump e (write1 conn) db
                | Inr (response, db') \<Rightarrow>
                    (case dump response of
                       Inl e \<Rightarrow> on_exception dump e (write1 conn) db'
                     | Inr body \<Rightarrow>
                         (case write_message (write1 conn) body of
                            Inl (Thrown e) \<Rightarrow> on_exception dump e (write2 conn) db'
                          | Inl Killed \<Rightarrow> Inl Killed
                          | Inr u \<Rightarrow> Inr (Some response, db'))))))"

subsection \<open>The accept loop (\<^verbatim>\<open>run\<close>)\<close>

text \<open>
  One turn of the loop meets one of these events. The list of events ends when the
  shutdown flag is seen. \<open>run\<close> gives the responses delivered, one per accepted
  connection, and the final store. \<open>Inl (Thrown e)\<close> is an exception that leaves \<^verbatim>\<open>run\<close>,
  which \<^verbatim>\<open>main\<close> reports as fatal before it returns 1; \<open>Inl Killed\<close> is the process ended
  by the signal. Either way the events that follow are not served.
\<close>

datatype event =
    SelectTimeout
  | SelectInterrupted
  | SelectFailed
  | AcceptInterrupted
  | AcceptFailed
  | Accepted connection

fun run ::
  "(string \<Rightarrow> string + json) \<Rightarrow> (json \<Rightarrow> exn + string) \<Rightarrow> sorter \<Rightarrow> (string \<Rightarrow> nat)
     \<Rightarrow> VectorDB \<Rightarrow> event list \<Rightarrow> abort + json option list \<times> VectorDB" where
  "run parse dump srt h db [] = Inr ([], db)"
| "run parse dump srt h db (SelectFailed # evs) = Inr ([], db)"
| "run parse dump srt h db (Accepted conn # evs) =
     (case handle_connection parse dump srt h db conn of
        Inl a \<Rightarrow> Inl a
      | Inr (response, db') \<Rightarrow>
          (case run parse dump srt h db' evs of
             Inl a \<Rightarrow> Inl a
           | Inr (responses, final) \<Rightarrow> Inr (response # responses, final)))"
| "run parse dump srt h db (ev # evs) = run parse dump srt h db evs"

section \<open>Notions used in the statements\<close>

text \<open>The chunks of the document whose id is the empty string.\<close>

definition empty_doc_chunks :: "VectorDB \<Rightarrow> VectorEntry list" where
  "empty_doc_chunks db = filter (\<lambda>e. doc_id e = []) (map snd (entries db))"

text \<open>The same store with other metadata: every entry's metadata replaced by \<open>g\<close> of the entry.\<close>

definition remeta :: "(VectorEntry \<Rightarrow> json) \<Rightarrow> VectorDB \<Rightarrow> VectorDB" where
  "remeta g db =
     \<lparr>entries = map (\<lambda>(c, e). (c, e\<lparr>metadata := g e\<rparr>)) (entries db),
      doc_index = doc_index db\<rparr>"

text \<open>What a client sees of a handler's result: the response, or the exception.\<close>

definition response_of :: "exn + json \<times> VectorDB \<Rightarrow> exn + json" where
  "response_of res = (case res of Inl e \<Rightarrow> Inl e | Inr (response, db) \<Rightarrow> Inr response)"

text \<open>Sample values for the closed instances of the theorems.\<close>

definition entry_c1 :: VectorEntry where
  "entry_c1 = \<lparr>chunk_id = ''c1'', doc_id = ''d1'', text = ''cat sat on mat'',
               metadata = JObject [(''page'', JInt 1)], embedding = [1, 0]\<rparr>"

definition entry_c2 :: VectorEntry where
  "entry_c2 = \<lparr>chunk_id = ''c2'', doc_id = ''d2'', text = ''dog ran in park'',
               metadata = JObject [], embedding = [0, 1]\<rparr>"

definition two_docs :: VectorDB where
  "two_docs = \<lparr>entries = [(''c1'', entry_c1), (''c2'', entry_c2)],
               doc_index = [(''d1'', [''c1'']), (''d2'', [''c2''])]\<rparr>"

definition op_c1 :: store_op where
  "op_c1 = \<lparr>op_chunk = ''c1'', op_doc = ''d1'', op_text = ''cat sat on mat'',
            op_meta = JObject [(''page'', JInt 1)], op_emb = [1, 0]\<rparr>"

definition op_c2 :: store_op where
  "op_c2 = \<lparr>op_chunk = ''c2'', op_doc = ''d2'', op_text = ''dog ran in park'',
            op_meta = JObject [], op_emb = [0, 1]\<rparr>"

definition op_nodoc :: store_op where
  "op_nodoc = \<lparr>op_chunk = ''c0'', op_doc = [], op_text = ''loose page'',
               op_meta = JObject [], op_emb = [1, 1]\<rparr>"

text \<open>
  Requests, a stand-in for the parser that knows their two bodies, a stand-in for \<open>dump\<close>
  that never throws (the bytes it gives are not looked at), and connections that carry the
  requests: a one-byte body after the header \<open>00 00 00 01\<close>.
\<close>

definition store_request :: json where
  "store_request =
     JObject [(''action'', JString ''store''), (''chunk_id'', JString ''c3''),
              (''doc_id'', JString ''d1''), (''text'', JString ''cat nap'')]"

definition search_request :: json where
  "search_request = JObject [(''action'', JString ''search''), (''query'', JString ''cat sat'')]"

definition sample_parse :: "string \<Rightarrow> string + json" where
  "sample_parse body =
     (if body = ''S'' then Inr store_request
      else if body = ''Q'' then Inr search_request
      else Inl ''syntax error'')"

definition sample_dump :: "json \<Rightarrow> exn + string" where
  "sample_dump j = Inr (type_name j)"

definition frame :: "string \<Rightarrow> string list" where
  "frame body = [[CHR 0x00, CHR 0x00, CHR 0x00, CHR 0x01], body]"

text \<open>
  Connections: one that declares the length 0, one that declares 11 MiB (\<open>00 B0 00 00\<close>,
  in two segments) and whose writes fail, one that declares the length 0 from a peer that
  has closed when the answer is written, one that carries the store request, and one that
  carries a body the parser rejects and whose first write fails.
\<close>

definition zero_length_conn :: connection where
  "zero_length_conn =
     \<lparr>reads = [[CHR 0x00, CHR 0x00, CHR 0x00, CHR 0x00]], write1 = WriteOk, write2 = WriteOk\<rparr>"

definition oversized_conn :: connection where
  "oversized_conn =
     \<lparr>reads = [[CHR 0x00, CHR 0xB0], [CHR 0x00, CHR 0x00, CHR ''x'']],
      write1 = WriteFailsLength, write2 = WriteFailsLength\<rparr>"

definition closed_peer_conn :: connection where
  "closed_peer_conn =
     \<lparr>reads = [[CHR 0x00, CHR 0x00, CHR 0x00, CHR 0x00]],
      write1 = WriteSigpipe, write2 = WriteSigpipe\<rparr>"

definition store_conn :: connection where
  "store_conn = \<lparr>reads = frame ''S'', write1 = WriteOk, write2 = WriteOk\<rparr>"

definition garbled_conn :: connection where
  "garbled_conn = \<lparr>reads = frame ''{'', write1 = WriteFailsLength, write2 = WriteOk\<rparr>"

declare read_exact.simps [simp del]

declare to_string.simps [simp del]

section \<open>Properties of the store\<close>

subsection \<open>The two maps stay consistent\<close>

lemma store_inv_iff:
  "store_inv db \<longleftrightarrow>
     distinct (map fst (entries db)) \<and> distinct (map fst (doc_index db)) \<and>
     (\<forall>c e. map_of (entries db) c = Some e \<longrightarrow>
        chunk_id e = c \<and> (\<exists>ids. map_of (doc_index db) (doc_id e) = Some ids \<and> c \<in> set ids)) \<and>
     (\<forall>d ids. map_of (doc_index db) d = Some ids \<longrightarrow>
        ids \<noteq> [] \<and> distinct ids \<and>
        (\<forall>c \<in> set ids. \<exists>e. map_of (entries db) c = Some e \<and> doc_id e = d))"
proof (cases "distinct (map fst (entries db)) \<and> distinct (map fst (doc_index db))")
  case True
  then have A: "\<And>c e. (c, e) \<in> set (entries db) \<longleftrightarrow> map_of (entries db) c = Some e"
    and B: "\<And>d ids. (d, ids) \<in> set (doc_index db) \<longleftrightarrow> map_of (doc_index db) d = Some ids"
    by simp_all
  have C: "\<And>P xs. (\<forall>(a, b) \<in> set xs. P a b) \<longleftrightarrow> (\<forall>a b. (a, b) \<in> set xs \<longrightarrow> P a b)"
    by auto
  show ?thesis
    unfolding store_inv_def entries_ok_def index_ok_def bucket_def C A B
    using True apply (auto split: option.splits)
      apply (blast dest: eq_key_imp_eq_value)+
    done
next
  case False
  then show ?thesis
    unfolding store_inv_def entries_ok_def index_ok_def by auto
qed

lemma distinct_unlink_old:
  "distinct (map fst idx) \<Longrightarrow> distinct (map fst (unlink_old cid ents idx))"
  by (simp add: unlink_old_def Let_def distinct_update distinct_delete split: option.splits)

lemma map_of_unlink_old:
  "map_of (unlink_old cid ents idx) =
     (case map_of ents cid of
        None \<Rightarrow> map_of idx
      | Some old \<Rightarrow>
          (if removeAll cid (bucket idx (doc_id old)) = [] then (map_of idx)(doc_id old := None)
           else (map_of idx)(doc_id old \<mapsto> removeAll cid (bucket idx (doc_id old)))))"
  by (simp add: unlink_old_def Let_def update_conv' delete_conv' split: option.splits)

lemma inv_entryD:
  "store_inv db \<Longrightarrow> map_of (entries db) c = Some e \<Longrightarrow>
     chunk_id e = c \<and> (\<exists>ids. map_of (doc_index db) (doc_id e) = Some ids \<and> c \<in> set ids)"
  unfolding store_inv_iff by blast

lemma inv_bucketD:
  "store_inv db \<Longrightarrow> map_of (doc_index db) d = Some ids \<Longrightarrow>
     ids \<noteq> [] \<and> distinct ids \<and>
     (\<forall>c \<in> set ids. \<exists>e. map_of (entries db) c = Some e \<and> doc_id e = d)"
  unfolding store_inv_iff by blast

lemma inv_distinctD:
  "store_inv db \<Longrightarrow> distinct (map fst (entries db)) \<and> distinct (map fst (doc_index db))"
  unfolding store_inv_iff by blast

lemma unlink_old_buckets:
  assumes inv: "store_inv db"
    and got: "map_of (unlink_old cid (entries db) (doc_index db)) d = Some ids"
  shows "ids \<noteq> [] \<and> distinct ids \<and> cid \<notin> set ids \<and>
           (\<forall>c \<in> set ids. \<exists>e. map_of (entries db) c = Some e \<and> doc_id e = d)"
proof (cases "map_of (entries db) cid")
  case None
  with got have "map_of (doc_index db) d = Some ids"
    by (simp add: map_of_unlink_old)
  from inv_bucketD [OF inv this] None show ?thesis
    by fastforce
next
  case (Some old)
  from inv_entryD [OF inv Some] obtain ids0
    where ids0: "map_of (doc_index db) (doc_id old) = Some ids0"
    by blast
  then have b: "bucket (doc_index db) (doc_id old) = ids0"
    by (simp add: bucket_def)
  from inv_bucketD [OF inv ids0] have p0: "distinct ids0"
    "\<forall>c \<in> set ids0. \<exists>e. map_of (entries db) c = Some e \<and> doc_id e = doc_id old"
    by blast+
  show ?thesis
  proof (cases "d = doc_id old")
    case True
    with got Some b have "ids = removeAll cid ids0" "removeAll cid ids0 \<noteq> []"
      by (auto simp: map_of_unlink_old split: if_splits)
    with p0 True show ?thesis
      by (auto simp: distinct_removeAll)
  next
    case False
    with got Some have g: "map_of (doc_index db) d = Some ids"
      by (auto simp: map_of_unlink_old split: if_splits)
    from inv_bucketD [OF inv g] have p: "ids \<noteq> []" "distinct ids"
      "\<forall>c \<in> set ids. \<exists>e. map_of (entries db) c = Some e \<and> doc_id e = d"
      by blast+
    with Some False have "cid \<notin> set ids"
      by auto
    with p show ?thesis by simp
  qed
qed

lemma unlink_old_keeps:
  assumes inv: "store_inv db"
    and e: "map_of (entries db) c = Some e" and ne: "c \<noteq> cid"
  shows "\<exists>ids. map_of (unlink_old cid (entries db) (doc_index db)) (doc_id e) = Some ids
           \<and> c \<in> set ids"
proof -
  from inv_entryD [OF inv e] obtain ids
    where ids: "map_of (doc_index db) (doc_id e) = Some ids" "c \<in> set ids"
    by blast
  show ?thesis
  proof (cases "map_of (entries db) cid")
    case None
    with ids show ?thesis by (simp add: map_of_unlink_old)
  next
    case (Some old)
    show ?thesis
    proof (cases "doc_id e = doc_id old")
      case True
      with ids have "bucket (doc_index db) (doc_id old) = ids"
        by (simp add: bucket_def)
      moreover from ids ne have "c \<in> set (removeAll cid ids)" by simp
      moreover from this have "removeAll cid ids \<noteq> []" by force
      ultimately show ?thesis using Some True
        by (simp add: map_of_unlink_old)
    next
      case False
      with ids Some show ?thesis by (auto simp: map_of_unlink_old)
    qed
  qed
qed

lemma store_inv_store:
  assumes inv: "store_inv db"
  shows "store_inv (store cid did txt meta emb db)"
proof -
  let ?idx = "unlink_old cid (entries db) (doc_index db)"
  let ?new = "\<lparr>chunk_id = cid, doc_id = did, text = txt, metadata = meta, embedding = emb\<rparr>"
  have E: "map_of (entries (store cid did txt meta emb db)) = (map_of (entries db))(cid \<mapsto> ?new)"
    by (simp add: store_def Let_def update_conv')
  have I: "map_of (doc_index (store cid did txt meta emb db))
             = (map_of ?idx)(did \<mapsto> bucket ?idx did @ [cid])"
    by (simp add: store_def Let_def update_conv')
  have d1: "distinct (map fst (entries (store cid did txt meta emb db)))"
    using inv_distinctD [OF inv] by (simp add: store_def Let_def distinct_update)
  have d2: "distinct (map fst (doc_index (store cid did txt meta emb db)))"
    using inv_distinctD [OF inv] by (simp add: store_def Let_def distinct_update distinct_unlink_old)
  have bk: "distinct (bucket ?idx did) \<and> cid \<notin> set (bucket ?idx did) \<and>
    (\<forall>c \<in> set (bucket ?idx did). \<exists>e. map_of (entries db) c = Some e \<and> doc_id e = did)"
  proof (cases "map_of ?idx did")
    case None
    then show ?thesis by (simp add: bucket_def)
  next
    case (Some ids)
    from unlink_old_buckets [OF inv Some] show ?thesis
      by (simp add: bucket_def Some)
  qed
  have p3: "chunk_id e = c \<and>
      (\<exists>ids. map_of (doc_index (store cid did txt meta emb db)) (doc_id e) = Some ids \<and> c \<in> set ids)"
    if "map_of (entries (store cid did txt meta emb db)) c = Some e" for c e
  proof (cases "c = cid")
    case True
    with that have "e = ?new" by (simp add: E)
    with True show ?thesis by (simp add: I)
  next
    case False
    with that have old: "map_of (entries db) c = Some e" by (simp add: E)
    from inv_entryD [OF inv old] have "chunk_id e = c" by blast
    moreover from unlink_old_keeps [OF inv old False] obtain ids
      where "map_of ?idx (doc_id e) = Some ids" "c \<in> set ids" by blast
    ultimately show ?thesis
      by (auto simp: I bucket_def)
  qed
  have p4: "ids \<noteq> [] \<and> distinct ids \<and>
      (\<forall>c \<in> set ids. \<exists>e. map_of (entries (store cid did txt meta emb db)) c = Some e \<and> doc_id e = d)"
    if "map_of (doc_index (store cid did txt meta emb db)) d = Some ids" for d ids
  proof (cases "d = did")
    case True
    with that have "ids = bucket ?idx did @ [cid]" by (simp add: I)
    with bk True show ?thesis by (auto simp: E)
  next
    case False
    with that have "map_of ?idx d = Some ids" by (simp add: I)
    from unlink_old_buckets [OF inv this] show ?thesis
      by (auto simp: E)
  qed
  from d1 d2 p3 p4 show ?thesis
    unfolding store_inv_iff [of "store cid did txt meta emb db"] by blast
qed

lemma store_inv_empty: "store_inv empty_db"
  by (simp add: store_inv_def entries_ok_def index_ok_def empty_db_def)

lemma store_inv_foldl: "store_inv db \<Longrightarrow> store_inv (foldl apply_store db ops)"
  by (induction ops arbitrary: db) (simp_all add: apply_store_def store_inv_store)

lemma store_inv_stores: "store_inv (stores ops)"
  by (simp add: stores_def store_inv_foldl store_inv_empty)


lemma one_entry_per_key:
  "distinct (map fst xs) \<Longrightarrow> k \<in> fst ` set xs \<Longrightarrow> length (filter (\<lambda>p. fst p = k) xs) = 1"
proof (induction xs)
  case Nil
  then show ?case by simp
next
  case (Cons x xs)
  show ?case
  proof (cases "fst x = k")
    case True
    with Cons.prems have "filter (\<lambda>p. fst p = k) xs = []"
      by (auto simp: filter_empty_conv image_iff)
    with True show ?thesis by simp
  next
    case False
    with Cons show ?thesis by auto
  qed
qed

text \<open>
  Claim C3. After every sequence of store operations, run from the empty store: the keys of
  the entry map are distinct, so each chunk id keys at most one entry, and so are the keys of
  the doc index; every bucket of the doc index is non-empty and every chunk id in the bucket of a document has an entry whose
  \<open>doc_id\<close> is that document. Storing a chunk id that already has an entry leaves exactly one
  entry for it, the new one, without adding a key, and links it from the bucket of the new
  document; when the document differs from the old one, the chunk id is gone from the old
  bucket, which is erased if nothing else was in it.
\<close>

theorem store_upsert_consistent:
  "(let db = stores ops
    in distinct (map fst (entries db)) \<and>
       distinct (map fst (doc_index db)) \<and>
       (\<forall>dd ids. map_of (doc_index db) dd = Some ids \<longrightarrow>
          ids \<noteq> [] \<and>
          (\<forall>cc \<in> set ids. \<exists>en. map_of (entries db) cc = Some en \<and> doc_id en = dd))) \<and>
   (\<forall>old. map_of (entries (stores ops)) c = Some old \<longrightarrow>
      (let db = stores ops; db' = store c d t m e db;
           rest = removeAll c (bucket (doc_index db) (doc_id old))
       in length (filter (\<lambda>p. fst p = c) (entries db')) = 1 \<and>
          map fst (entries db') = map fst (entries db) \<and>
          map_of (entries db') c
            = Some \<lparr>chunk_id = c, doc_id = d, text = t, metadata = m, embedding = e\<rparr> \<and>
          c \<in> set (bucket (doc_index db') d) \<and>
          (doc_id old \<noteq> d \<longrightarrow>
             c \<notin> set (bucket (doc_index db') (doc_id old)) \<and>
             map_of (doc_index db') (doc_id old) = (if rest = [] then None else Some rest))))"
proof (intro conjI allI impI)
  have inv: "store_inv (stores ops)" by (rule store_inv_stores)
  from inv_distinctD [OF inv] inv_bucketD [OF inv]
  show "let db = stores ops
    in distinct (map fst (entries db)) \<and>
       distinct (map fst (doc_index db)) \<and>
       (\<forall>dd ids. map_of (doc_index db) dd = Some ids \<longrightarrow>
          ids \<noteq> [] \<and>
          (\<forall>cc \<in> set ids. \<exists>en. map_of (entries db) cc = Some en \<and> doc_id en = dd))"
    unfolding Let_def by blast
next
  fix old
  assume old: "map_of (entries (stores ops)) c = Some old"
  let ?db = "stores ops"
  let ?db' = "store c d t m e ?db"
  let ?rest = "removeAll c (bucket (doc_index ?db) (doc_id old))"
  have inv: "store_inv ?db" by (rule store_inv_stores)
  have inv': "store_inv ?db'" by (rule store_inv_store [OF inv])
  have keys: "map fst (entries ?db') = map fst (entries ?db)"
    using old by (auto simp: store_def Let_def update_keys dest: map_of_SomeD intro: rev_image_eqI)
  have "c \<in> fst ` set (entries ?db')"
    by (simp add: store_def Let_def dom_update)
  with inv_distinctD [OF inv'] have one: "length (filter (\<lambda>p. fst p = c) (entries ?db')) = 1"
    by (simp add: one_entry_per_key)
  have ent: "map_of (entries ?db') c
      = Some \<lparr>chunk_id = c, doc_id = d, text = t, metadata = m, embedding = e\<rparr>"
    by (simp add: store_def Let_def update_conv')
  have new: "c \<in> set (bucket (doc_index ?db') d)"
    by (simp add: store_def Let_def update_conv' bucket_def)
  have moved: "c \<notin> set (bucket (doc_index ?db') (doc_id old)) \<and>
      map_of (doc_index ?db') (doc_id old) = (if ?rest = [] then None else Some ?rest)"
    if "doc_id old \<noteq> d"
    using that old
    by (simp add: store_def Let_def update_conv' map_of_unlink_old bucket_def)
  from one keys ent new moved
  show "let db = stores ops; db' = store c d t m e db;
            rest = removeAll c (bucket (doc_index db) (doc_id old))
        in length (filter (\<lambda>p. fst p = c) (entries db')) = 1 \<and>
           map fst (entries db') = map fst (entries db) \<and>
           map_of (entries db') c
             = Some \<lparr>chunk_id = c, doc_id = d, text = t, metadata = m, embedding = e\<rparr> \<and>
           c \<in> set (bucket (doc_index db') d) \<and>
           (doc_id old \<noteq> d \<longrightarrow>
              c \<notin> set (bucket (doc_index db') (doc_id old)) \<and>
              map_of (doc_index db') (doc_id old) = (if rest = [] then None else Some rest))"
    by (simp add: Let_def)
qed

theorem store_upsert_consistent_witness:
  "map_of (entries (stores [\<lparr>op_chunk = ''c1'', op_doc = ''d1'', op_text = ''cat'',
        op_meta = JObject [], op_emb = [1, 0]\<rparr>])) ''c1''
     = Some \<lparr>chunk_id = ''c1'', doc_id = ''d1'', text = ''cat'', metadata = JObject [],
             embedding = [1, 0]\<rparr> \<and>
   map_of (doc_index (stores [\<lparr>op_chunk = ''c1'', op_doc = ''d1'', op_text = ''cat'',
        op_meta = JObject [], op_emb = [1, 0]\<rparr>])) ''d1'' = Some [''c1''] \<and>
   (let db' = store ''c1'' ''d2'' ''cat'' (JObject []) [1, 0]
                (stores [\<lparr>op_chunk = ''c1'', op_doc = ''d1'', op_text = ''cat'',
                   op_meta = JObject [], op_emb = [1, 0]\<rparr>])
    in length (filter (\<lambda>p. fst p = ''c1'') (entries db')) = 1 \<and>
       ''c1'' \<in> set (bucket (doc_index db') ''d2'') \<and>
       ''c1'' \<notin> set (bucket (doc_index db') ''d1'') \<and>
       map_of (doc_index db') ''d1'' = None)"
proof -
  let ?ops = "[\<lparr>op_chunk = ''c1'', op_doc = ''d1'', op_text = ''cat'',
        op_meta = JObject [], op_emb = [1, 0]\<rparr>]"
  let ?old = "\<lparr>chunk_id = ''c1'', doc_id = ''d1'', text = ''cat'', metadata = JObject [],
             embedding = [1, 0]\<rparr>"
  have st: "stores ?ops = \<lparr>entries = [(''c1'', ?old)], doc_index = [(''d1'', [''c1''])]\<rparr>"
    by (simp add: stores_def apply_store_def store_def unlink_old_def empty_db_def bucket_def)
  have h: "map_of (entries (stores ?ops)) ''c1'' = Some ?old"
    by (simp add: st)
  have b: "removeAll ''c1'' (bucket (doc_index (stores ?ops)) (doc_id ?old)) = []"
    by (simp add: st bucket_def)
  from store_upsert_consistent [of ?ops "''c1''" "''d2''" "''cat''" "JObject []" "[1, 0]"] h b
  show ?thesis
    by (simp add: Let_def st)
qed

subsection \<open>Search: candidates, ranking, truncation\<close>

lemma stable_sorter_sorts: "sorts_descending stable_sorter"
  unfolding sorts_descending_def stable_sorter_def
proof (intro allI conjI)
  fix ks :: "real list"
  show "mset (sort_key (\<lambda>i. - (ks ! i)) [0..<length ks]) = mset [0..<length ks]"
    by simp
  have "sorted (map (\<lambda>i. - (ks ! i)) (sort_key (\<lambda>i. - (ks ! i)) [0..<length ks]))"
    by (rule sorted_sort_key)
  then show "sorted_wrt (\<lambda>i j. ks ! j \<le> ks ! i) (sort_key (\<lambda>i. - (ks ! i)) [0..<length ks])"
    by (simp add: sorted_map)
qed

lemma sorter_indices:
  assumes "sorts_descending srt"
  shows "mset (srt ks) = mset [0..<length ks]" and "set (srt ks) = {0..<length ks}"
    and "length (srt ks) = length ks"
proof -
  from assms show m: "mset (srt ks) = mset [0..<length ks]"
    by (simp add: sorts_descending_def)
  from m have "set_mset (mset (srt ks)) = set_mset (mset [0..<length ks])" by simp
  then show "set (srt ks) = {0..<length ks}" by simp
  from m have "size (mset (srt ks)) = size (mset [0..<length ks])" by simp
  then show "length (srt ks) = length ks" by simp
qed

lemma mset_std_sort:
  assumes "sorts_descending srt"
  shows "mset (std_sort srt xs) = mset xs"
proof -
  have "mset (std_sort srt xs) = image_mset (\<lambda>i. xs ! i) (mset (srt (map fst xs)))"
    by (simp add: std_sort_def)
  also have "\<dots> = image_mset (\<lambda>i. xs ! i) (mset [0..<length xs])"
    using sorter_indices(1) [OF assms, of "map fst xs"] by simp
  also have "\<dots> = mset (map (\<lambda>i. xs ! i) [0..<length xs])"
    by simp
  also have "\<dots> = mset xs"
    by (simp add: map_nth)
  finally show ?thesis .
qed

lemma set_std_sort: "sorts_descending srt \<Longrightarrow> set (std_sort srt xs) = set xs"
  using mset_std_sort [of srt xs] by (metis set_mset_mset)

lemma length_std_sort: "sorts_descending srt \<Longrightarrow> length (std_sort srt xs) = length xs"
  using mset_std_sort [of srt xs] by (metis size_mset)





lemma search_eq:
  "search srt q k f db =
     map to_result (take (nat k) (std_sort srt (scored q db f)))"
  by (cases "k \<le> int (length (std_sort srt (scored q db f)))")
     (simp_all add: search_def Let_def min_def)





lemma in_map_filter:
  "y \<in> set (List.map_filter g xs) \<longleftrightarrow> (\<exists>x \<in> set xs. g x = Some y)"
  by (induction xs) (auto split: option.splits)

lemma filtered_candidates:
  assumes inv: "store_inv db" and f: "f \<noteq> []" and e: "e \<in> set (candidates db f)"
  shows "map_of (entries db) (chunk_id e) = Some e \<and> doc_id e = f"
proof -
  from e f obtain ids where ids: "map_of (doc_index db) f = Some ids"
    by (cases "map_of (doc_index db) f") (auto simp: candidates_def)
  with e f obtain c where c: "c \<in> set ids" "map_of (entries db) c = Some e"
    by (auto simp: candidates_def in_map_filter)
  from inv_bucketD [OF inv ids] c have "doc_id e = f" by auto
  moreover from inv_entryD [OF inv c(2)] have "chunk_id e = c" by simp
  ultimately show ?thesis using c by simp
qed

lemma unknown_document_no_candidates:
  assumes inv: "store_inv db" and f: "f \<noteq> []"
    and none: "\<forall>p \<in> set (entries db). doc_id (snd p) \<noteq> f"
  shows "candidates db f = []"
proof (cases "map_of (doc_index db) f")
  case None
  with f show ?thesis by (simp add: candidates_def)
next
  case (Some ids)
  from inv_bucketD [OF inv Some] obtain c e
    where "c \<in> set ids" "map_of (entries db) c = Some e" "doc_id e = f"
    by (cases ids) auto
  then have "(c, e) \<in> set (entries db)" "doc_id e = f"
    by (auto dest: map_of_SomeD)
  with none show ?thesis by force
qed

lemma search_from_candidates:
  assumes "sorts_descending srt" and "r \<in> set (search srt q k f db)"
  shows "\<exists>e \<in> set (candidates db f). r = to_result (dot_product q (embedding e), e)"
proof -
  from assms(2) obtain p where "p \<in> set (take (nat k) (std_sort srt (scored q db f)))"
    "r = to_result p"
    by (auto simp: search_eq)
  then have "p \<in> set (scored q db f)" "r = to_result p"
    using set_std_sort [OF assms(1), of "scored q db f"] by (auto dest: in_set_takeD)
  then show ?thesis by (auto simp: scored_def)
qed

lemma search_no_candidates:
  assumes "sorts_descending srt" and "candidates db f = []"
  shows "search srt q k f db = []"
  using length_std_sort [OF assms(1), of "scored q db f"] assms(2)
  by (simp add: search_eq scored_def)

text \<open>
  Claim C5. In every store reached by store operations, a search with a non-empty filter
  \<open>f\<close> returns only chunk ids whose entry has \<open>doc_id = f\<close>, whatever the scores of the
  other documents; when no entry has \<open>doc_id = f\<close> the result is the empty list.
\<close>

theorem filtered_search_stays_in_document:
  assumes srt: "sorts_descending srt" and f: "f \<noteq> []"
  shows "(\<forall>r \<in> set (search srt q k f (stores ops)).
            \<exists>e. map_of (entries (stores ops)) (r_chunk_id r) = Some e \<and> doc_id e = f) \<and>
         ((\<forall>p \<in> set (entries (stores ops)). doc_id (snd p) \<noteq> f) \<longrightarrow>
            search srt q k f (stores ops) = [])"
proof (intro conjI ballI impI)
  fix r
  assume "r \<in> set (search srt q k f (stores ops))"
  from search_from_candidates [OF srt this] obtain e
    where e: "e \<in> set (candidates (stores ops) f)"
      and r: "r = to_result (dot_product q (embedding e), e)"
    by blast
  from filtered_candidates [OF store_inv_stores f e] r
  show "\<exists>e. map_of (entries (stores ops)) (r_chunk_id r) = Some e \<and> doc_id e = f"
    by (simp add: to_result_def)
next
  assume "\<forall>p \<in> set (entries (stores ops)). doc_id (snd p) \<noteq> f"
  from unknown_document_no_candidates [OF store_inv_stores f this]
  show "search srt q k f (stores ops) = []"
    by (rule search_no_candidates [OF srt])
qed


lemma stores_two_docs: "stores [op_c1, op_c2] = two_docs"
  by (simp add: stores_def apply_store_def store_def unlink_old_def empty_db_def bucket_def
      op_c1_def op_c2_def two_docs_def entry_c1_def entry_c2_def)

lemma candidates_two_docs:
  "candidates two_docs [] = [entry_c1, entry_c2]" "candidates two_docs ''d2'' = [entry_c2]"
  by (simp_all add: candidates_def two_docs_def)


theorem filtered_search_stays_in_document_witness:
  "sorts_descending stable_sorter \<and> ''d2'' \<noteq> [] \<and>
   search stable_sorter [1, 0] 1 ''d2'' (stores [op_c1, op_c2]) = [to_result (0, entry_c2)] \<and>
   dot_product [1, 0] (embedding entry_c2) < dot_product [1, 0] (embedding entry_c1) \<and>
   map_of (entries (stores [op_c1, op_c2])) ''c2'' = Some entry_c2 \<and>
   doc_id entry_c2 = ''d2'' \<and>
   search stable_sorter [1, 0] 1 ''d9'' (stores [op_c1, op_c2]) = []"
proof -
  note T = filtered_search_stays_in_document [OF stable_sorter_sorts, of _ "[1, 0]" 1 "[op_c1, op_c2]"]
  have s: "dot_product [1, 0] (embedding entry_c1) = 1" "dot_product [1, 0] (embedding entry_c2) = 0"
    by (simp_all add: dot_product_def upt_rec entry_c1_def entry_c2_def)
  have hit: "search stable_sorter [1, 0] 1 ''d2'' (stores [op_c1, op_c2]) = [to_result (0, entry_c2)]"
    by (simp add: stores_two_docs search_eq scored_def candidates_two_docs s std_sort_def
        stable_sorter_def)
  have "\<forall>p \<in> set (entries (stores [op_c1, op_c2])). doc_id (snd p) \<noteq> ''d9''"
    by (simp add: stores_two_docs two_docs_def entry_c1_def entry_c2_def)
  with T [of "''d9''"] have miss: "search stable_sorter [1, 0] 1 ''d9'' (stores [op_c1, op_c2]) = []"
    by simp
  from T [of "''d2''"] hit
  have "\<exists>e. map_of (entries (stores [op_c1, op_c2])) ''c2'' = Some e \<and> doc_id e = ''d2''"
    by (simp add: to_result_def entry_c2_def)
  then have "map_of (entries (stores [op_c1, op_c2])) ''c2'' = Some entry_c2 \<and> doc_id entry_c2 = ''d2''"
    by (simp add: stores_two_docs two_docs_def)
  with stable_sorter_sorts hit miss s show ?thesis by simp
qed

subsection \<open>The empty filter\<close>

lemma search_all_candidates:
  assumes srt: "sorts_descending srt" and k: "int (length (candidates db f)) \<le> k"
  shows "mset (search srt q k f db)
           = mset (map (\<lambda>e. to_result (dot_product q (embedding e), e)) (candidates db f))"
proof -
  have "length (std_sort srt (scored q db f)) = length (candidates db f)"
    by (simp add: length_std_sort [OF srt] scored_def)
  with k have "take (nat k) (std_sort srt (scored q db f)) = std_sort srt (scored q db f)"
    by simp
  then have "mset (search srt q k f db) = image_mset to_result (mset (std_sort srt (scored q db f)))"
    by (simp add: search_eq)
  also have "\<dots> = image_mset to_result (mset (scored q db f))"
    by (simp add: mset_std_sort [OF srt])
  finally show ?thesis
    by (simp add: scored_def image_mset.compositionality comp_def)
qed

lemma update_member: "(k, v) \<in> set (AList.update k v al)"
  by (induction al) auto

lemma stores_nodoc:
  "stores [op_nodoc] =
     \<lparr>entries = [(''c0'', \<lparr>chunk_id = ''c0'', doc_id = [], text = ''loose page'',
                    metadata = JObject [], embedding = [1, 1]\<rparr>)],
      doc_index = [([], [''c0''])]\<rparr>"
  by (simp add: stores_def apply_store_def store_def unlink_old_def empty_db_def bucket_def
      op_nodoc_def)

text \<open>
  Claim C9, as stated, fails: in the store that holds one chunk, filed under the empty
  document id, the search with the empty filter has exactly the chunks of the empty-string
  document as its candidates.
\<close>

theorem empty_doc_selected_counterexample:
  "set (candidates (stores [op_nodoc]) []) = set (empty_doc_chunks (stores [op_nodoc])) \<and>
   empty_doc_chunks (stores [op_nodoc]) \<noteq> []"
  by (simp add: stores_nodoc candidates_def empty_doc_chunks_def)

text \<open>
  Claim C9, amended. The empty filter is the unfiltered search: its candidates are all
  entries. A chunk stored under the empty document id has its entry, is a candidate of the
  unfiltered search and is among its results when \<open>top_k\<close> covers the store. In every store
  reached by store operations, the candidates of a search with a non-empty filter all have
  that filter as their document id, so none of them is a chunk of the empty-string document;
  and when the store holds a chunk of the empty-string document and a chunk of another
  document, no filter makes the candidates exactly the chunks of the empty-string document.
\<close>

theorem empty_filter_is_unfiltered:
  assumes srt: "sorts_descending srt"
  shows "candidates db [] = map snd (entries db) \<and>
    (let new = \<lparr>chunk_id = c, doc_id = [], text = t, metadata = m, embedding = e\<rparr>;
         db' = store c [] t m e db
     in map_of (entries db') c = Some new \<and>
        new \<in> set (candidates db' []) \<and>
        (int (length (entries db')) \<le> k \<longrightarrow>
           to_result (dot_product q e, new) \<in> set (search srt q k [] db'))) \<and>
    (f \<noteq> [] \<longrightarrow> (\<forall>en \<in> set (candidates (stores ops) f). doc_id en = f \<and> doc_id en \<noteq> [])) \<and>
    ((\<exists>p \<in> set (entries (stores ops)). doc_id (snd p) = []) \<and>
     (\<exists>p \<in> set (entries (stores ops)). doc_id (snd p) \<noteq> []) \<longrightarrow>
       (\<forall>f. set (candidates (stores ops) f) \<noteq> set (empty_doc_chunks (stores ops))))"
proof (intro conjI)
  show all: "candidates db [] = map snd (entries db)" for db
    by (simp add: candidates_def)
  let ?new = "\<lparr>chunk_id = c, doc_id = [], text = t, metadata = m, embedding = e\<rparr>"
  let ?db' = "store c [] t m e db"
  have ent: "map_of (entries ?db') c = Some ?new"
    by (simp add: store_def Let_def update_conv')
  have "(c, ?new) \<in> set (entries ?db')"
    by (simp add: store_def Let_def update_member)
  then have "snd (c, ?new) \<in> snd ` set (entries ?db')"
    by (rule imageI)
  then have cand: "?new \<in> set (candidates ?db' [])"
    by (simp add: all)
  have res: "to_result (dot_product q e, ?new) \<in> set (search srt q k [] ?db')"
    if "int (length (entries ?db')) \<le> k"
  proof -
    from that have "int (length (candidates ?db' [])) \<le> k" by (simp add: all)
    from search_all_candidates [OF srt this, of q]
    have "set_mset (mset (search srt q k [] ?db'))
        = set_mset (mset (map (\<lambda>e. to_result (dot_product q (embedding e), e))
            (candidates ?db' [])))"
      by (rule arg_cong)
    then have "set (search srt q k [] ?db')
        = (\<lambda>e. to_result (dot_product q (embedding e), e)) ` set (candidates ?db' [])"
      by simp
    moreover have "to_result (dot_product q e, ?new)
        = (\<lambda>e. to_result (dot_product q (embedding e), e)) ?new"
      by simp
    ultimately show ?thesis
      using cand by (simp only: image_eqI)
  qed
  from ent cand res
  show "let new = ?new; db' = ?db'
     in map_of (entries db') c = Some new \<and>
        new \<in> set (candidates db' []) \<and>
        (int (length (entries db')) \<le> k \<longrightarrow>
           to_result (dot_product q e, new) \<in> set (search srt q k [] db'))"
    by (simp add: Let_def)
  show "f \<noteq> [] \<longrightarrow>
      (\<forall>en \<in> set (candidates (stores ops) f). doc_id en = f \<and> doc_id en \<noteq> [])"
    using filtered_candidates [OF store_inv_stores, of f _ ops] by simp
  show "(\<exists>p \<in> set (entries (stores ops)). doc_id (snd p) = []) \<and>
     (\<exists>p \<in> set (entries (stores ops)). doc_id (snd p) \<noteq> []) \<longrightarrow>
       (\<forall>f. set (candidates (stores ops) f) \<noteq> set (empty_doc_chunks (stores ops)))"
  proof (intro impI allI notI, elim conjE bexE)
    fix f p1 p2
    assume eq: "set (candidates (stores ops) f) = set (empty_doc_chunks (stores ops))"
      and p1: "p1 \<in> set (entries (stores ops))" "doc_id (snd p1) = []"
      and p2: "p2 \<in> set (entries (stores ops))" "doc_id (snd p2) \<noteq> []"
    show False
    proof (cases "f = []")
      case True
      with p2 have "snd p2 \<in> set (candidates (stores ops) f)"
        by (simp add: all)
      with eq p2 show False
        by (simp add: empty_doc_chunks_def)
    next
      case False
      from p1 have "snd p1 \<in> set (empty_doc_chunks (stores ops))"
        by (simp add: empty_doc_chunks_def)
      with eq have "snd p1 \<in> set (candidates (stores ops) f)" by simp
      from filtered_candidates [OF store_inv_stores False this] p1 False
      show False by simp
    qed
  qed
qed

lemma stores_nodoc_c1:
  "stores [op_nodoc, op_c1] =
     \<lparr>entries = [(''c0'', \<lparr>chunk_id = ''c0'', doc_id = [], text = ''loose page'',
                    metadata = JObject [], embedding = [1, 1]\<rparr>), (''c1'', entry_c1)],
      doc_index = [([], [''c0'']), (''d1'', [''c1''])]\<rparr>"
  by (simp add: stores_def apply_store_def store_def unlink_old_def empty_db_def bucket_def
      op_nodoc_def op_c1_def entry_c1_def)

theorem empty_filter_is_unfiltered_witness:
  "sorts_descending stable_sorter \<and>
   int (length (entries (store ''c0'' [] ''loose page'' (JObject []) [1, 1] two_docs))) \<le> 3 \<and>
   to_result (dot_product [1, 0] [1, 1],
       \<lparr>chunk_id = ''c0'', doc_id = [], text = ''loose page'', metadata = JObject [],
        embedding = [1, 1]\<rparr>)
     \<in> set (search stable_sorter [1, 0] 3 []
              (store ''c0'' [] ''loose page'' (JObject []) [1, 1] two_docs)) \<and>
   (''c0'', \<lparr>chunk_id = ''c0'', doc_id = [], text = ''loose page'', metadata = JObject [],
        embedding = [1, 1]\<rparr>) \<in> set (entries (stores [op_nodoc, op_c1])) \<and>
   (''c1'', entry_c1) \<in> set (entries (stores [op_nodoc, op_c1])) \<and>
   doc_id entry_c1 \<noteq> [] \<and>
   ''d1'' \<noteq> [] \<and> candidates (stores [op_nodoc, op_c1]) ''d1'' = [entry_c1] \<and>
   doc_id entry_c1 = ''d1'' \<and>
   set (candidates (stores [op_nodoc, op_c1]) []) \<noteq> set (empty_doc_chunks (stores [op_nodoc, op_c1])) \<and>
   set (candidates (stores [op_nodoc, op_c1]) ''d1'') \<noteq> set (empty_doc_chunks (stores [op_nodoc, op_c1]))"
proof -
  note T = empty_filter_is_unfiltered [OF stable_sorter_sorts]
  let ?new = "\<lparr>chunk_id = ''c0'', doc_id = [], text = ''loose page'', metadata = JObject [],
        embedding = [1, 1]\<rparr>"
  have len: "int (length (entries (store ''c0'' [] ''loose page'' (JObject []) [1, 1] two_docs))) \<le> 3"
    by (simp add: store_def Let_def two_docs_def)
  with T [of two_docs "''c0''" "''loose page''" "JObject []" "[1, 1]" 3 "[1, 0]"]
  have res: "to_result (dot_product [1, 0] [1, 1], ?new)
     \<in> set (search stable_sorter [1, 0] 3 []
              (store ''c0'' [] ''loose page'' (JObject []) [1, 1] two_docs))"
    by (simp add: Let_def)
  have mem: "(''c0'', ?new) \<in> set (entries (stores [op_nodoc, op_c1]))"
    "(''c1'', entry_c1) \<in> set (entries (stores [op_nodoc, op_c1]))" "doc_id entry_c1 \<noteq> []"
    by (simp_all add: stores_nodoc_c1 entry_c1_def)
  then have "(\<exists>p \<in> set (entries (stores [op_nodoc, op_c1])). doc_id (snd p) = []) \<and>
     (\<exists>p \<in> set (entries (stores [op_nodoc, op_c1])). doc_id (snd p) \<noteq> [])"
    by (intro conjI bexI [of _ "(''c0'', ?new)"] bexI [of _ "(''c1'', entry_c1)"]) simp_all
  with T [where ops = "[op_nodoc, op_c1]"]
  have no: "\<forall>f. set (candidates (stores [op_nodoc, op_c1]) f)
      \<noteq> set (empty_doc_chunks (stores [op_nodoc, op_c1]))"
    by (simp only: simp_thms)
  from no have n1: "set (candidates (stores [op_nodoc, op_c1]) [])
      \<noteq> set (empty_doc_chunks (stores [op_nodoc, op_c1]))" ..
  from no have n2: "set (candidates (stores [op_nodoc, op_c1]) ''d1'')
      \<noteq> set (empty_doc_chunks (stores [op_nodoc, op_c1]))" ..
  have cd: "candidates (stores [op_nodoc, op_c1]) ''d1'' = [entry_c1]"
    by (simp add: stores_nodoc_c1 candidates_def)
  from T [where ops = "[op_nodoc, op_c1]" and f = "''d1''"] cd
  have dd: "doc_id entry_c1 = ''d1''"
    by simp
  have f: "''d1'' \<noteq> []" by simp
  from stable_sorter_sorts len res mem f cd dd n1 n2 show ?thesis
    by (intro conjI)
qed

section \<open>Properties of the server\<close>

subsection \<open>Only a store request changes the store\<close>

lemma at_key_string_contains: "at_key request key = JString s \<Longrightarrow> contains request key"
  by (cases request) (auto split: option.splits)

lemma dispatch_search:
  "at_key request ''action'' = JString ''search'' \<Longrightarrow>
     dispatch srt h request db = handle_search srt h request db"
  by (simp add: dispatch_def at_key_string_contains)


lemma handle_search_frame:
  "handle_search srt h request db = Inr (response, db') \<Longrightarrow> db' = db"
  by (auto simp: handle_search_def Let_def split: if_splits sum.splits)

lemma dispatch_frame:
  assumes "dispatch srt h request db = Inr (response, db')" and "db' \<noteq> db"
  shows "at_key request ''action'' = JString ''store''"
proof (cases "\<not> contains request ''action'' \<or> \<not> is_string (at_key request ''action'')")
  case True
  with assms show ?thesis by (auto simp: dispatch_def)
next
  case False
  then obtain a where a: "at_key request ''action'' = JString a"
    by (cases "at_key request ''action''") auto
  show ?thesis
  proof (cases "a = ''store''")
    case True
    with a show ?thesis by simp
  next
    case False
    with a assms \<open>\<not> (\<not> contains request ''action'' \<or> \<not> is_string (at_key request ''action''))\<close>
    show ?thesis
      by (auto simp: dispatch_def split: if_splits dest: handle_search_frame)
  qed
qed

lemma on_exception_frame: "on_exception dump e w db = Inr (out, db') \<Longrightarrow> db' = db"
  by (auto simp: on_exception_def Let_def split: sum.splits abort.splits)

lemma on_parse_error_frame: "on_parse_error dump m w db = Inr (out, db') \<Longrightarrow> db' = db"
  by (auto simp: on_parse_error_def Let_def split: sum.splits abort.splits)

lemma handle_connection_frame:
  assumes "handle_connection parse dump srt h db conn = Inr (out, db')" and "db' \<noteq> db"
  shows "\<exists>msg request. read_message (reads conn) = Inr msg \<and> parse msg = Inr request \<and>
           at_key request ''action'' = JString ''store''"
proof (cases "read_message (reads conn)")
  case (Inl e)
  with assms show ?thesis
    by (auto simp: handle_connection_def dest: on_exception_frame)
next
  case msg: (Inr msg)
  show ?thesis
  proof (cases "parse msg")
    case (Inl m)
    with msg assms show ?thesis
      by (auto simp: handle_connection_def dest: on_parse_error_frame)
  next
    case req: (Inr request)
    show ?thesis
    proof (cases "dispatch srt h request db")
      case (Inl e)
      with msg req assms show ?thesis
        by (auto simp: handle_connection_def dest: on_exception_frame)
    next
      case (Inr p)
      obtain response db1 where p: "p = (response, db1)" by (cases p)
      with Inr msg req assms have "db' = db1"
        by (auto simp: handle_connection_def split: sum.splits abort.splits dest: on_exception_frame)
      with assms(2) Inr p have "at_key request ''action'' = JString ''store''"
        by (auto dest: dispatch_frame)
      with msg req show ?thesis by blast
    qed
  qed
qed

text \<open>
  Claim C10. A search leaves the store as it was: \<^verbatim>\<open>VectorDB::search\<close> is a \<^verbatim>\<open>const\<close>
  member that reads the two maps with \<^verbatim>\<open>find\<close>, and \<open>search\<close> is a function of them.
  In the server, the store after \<open>handle_search\<close> is the store before it; a request that
  changes the store in \<open>dispatch\<close> has the action \<open>store\<close>; and a connection that changes
  it carried a request with that action.
\<close>

theorem search_leaves_store_unchanged:
  "(handle_search srt h request db = Inr (response, db') \<longrightarrow> db' = db) \<and>
   (dispatch srt h request db = Inr (response, db') \<and> db' \<noteq> db \<longrightarrow>
      at_key request ''action'' = JString ''store'') \<and>
   (handle_connection parse dump srt h db conn = Inr (out, db') \<and> db' \<noteq> db \<longrightarrow>
      (\<exists>msg req. read_message (reads conn) = Inr msg \<and> parse msg = Inr req \<and>
         at_key req ''action'' = JString ''store''))"
proof (intro conjI impI)
  assume "handle_search srt h request db = Inr (response, db')"
  then show "db' = db" by (rule handle_search_frame)
next
  assume "dispatch srt h request db = Inr (response, db') \<and> db' \<noteq> db"
  then show "at_key request ''action'' = JString ''store''"
    by (elim conjE) (rule dispatch_frame)
next
  assume "handle_connection parse dump srt h db conn = Inr (out, db') \<and> db' \<noteq> db"
  then show "\<exists>msg req. read_message (reads conn) = Inr msg \<and> parse msg = Inr req \<and>
         at_key req ''action'' = JString ''store''"
    by (elim conjE) (rule handle_connection_frame)
qed


lemma read_message_frame: "read_message (frame [b]) = Inr [b]"
  by (simp add: read_message_def frame_def read_exact.simps be32_def)

lemma store_changes_two_docs:
  "store ''c3'' ''d1'' ''cat nap'' (JObject []) emb two_docs \<noteq> two_docs"
  by (simp add: store_def Let_def two_docs_def)

theorem search_leaves_store_unchanged_witness:
  "handle_search stable_sorter length search_request two_docs
     = Inr (JObject [(''status'', JString ''ok''),
                     (''results'', JArray (map result_json
                        (search stable_sorter (embed length ''cat sat'') 5 [] two_docs)))],
            two_docs) \<and>
   dispatch stable_sorter length store_request two_docs
     = Inr (ok_response,
            store ''c3'' ''d1'' ''cat nap'' (JObject []) (embed length ''cat nap'') two_docs) \<and>
   store ''c3'' ''d1'' ''cat nap'' (JObject []) (embed length ''cat nap'') two_docs \<noteq> two_docs \<and>
   at_key store_request ''action'' = JString ''store'' \<and>
   handle_connection sample_parse sample_dump stable_sorter length two_docs
       \<lparr>reads = frame ''S'', write1 = WriteOk, write2 = WriteOk\<rparr>
     = Inr (Some ok_response,
            store ''c3'' ''d1'' ''cat nap'' (JObject []) (embed length ''cat nap'') two_docs) \<and>
   (\<exists>msg req. read_message (frame ''S'') = Inr msg \<and> sample_parse msg = Inr req \<and>
      at_key req ''action'' = JString ''store'')"
proof -
  let ?db' = "store ''c3'' ''d1'' ''cat nap'' (JObject []) (embed length ''cat nap'') two_docs"
  let ?conn = "\<lparr>reads = frame ''S'', write1 = WriteOk, write2 = WriteOk\<rparr>"
  have s: "handle_search stable_sorter length search_request two_docs
     = Inr (JObject [(''status'', JString ''ok''),
                     (''results'', JArray (map result_json
                        (search stable_sorter (embed length ''cat sat'') 5 [] two_docs)))],
            two_docs)"
    by (simp add: handle_search_def search_request_def)
  have d: "dispatch stable_sorter length store_request two_docs = Inr (ok_response, ?db')"
    by (simp add: dispatch_def handle_store_def store_request_def)
  have c: "handle_connection sample_parse sample_dump stable_sorter length two_docs ?conn
     = Inr (Some ok_response, ?db')"
    by (simp add: handle_connection_def read_message_frame sample_parse_def sample_dump_def d)
  note T = search_leaves_store_unchanged [where srt = stable_sorter and h = length
      and db = two_docs and parse = sample_parse and dump = sample_dump and conn = ?conn]
  from T [of search_request _ two_docs] s have "two_docs = two_docs" by simp
  from T [of store_request ok_response ?db'] d store_changes_two_docs
  have a: "at_key store_request ''action'' = JString ''store''" by simp
  from T [where db' = ?db' and out = "Some ok_response"] c store_changes_two_docs
  have e: "\<exists>msg req. read_message (frame ''S'') = Inr msg \<and> sample_parse msg = Inr req \<and>
      at_key req ''action'' = JString ''store''"
    by simp
  from s d store_changes_two_docs a c e show ?thesis
    by (intro conjI)
qed

subsection \<open>Dispatch: the shape of requests and responses\<close>

lemma map_of_remeta:
  "map_of (entries (remeta g db)) c
     = map_option (\<lambda>e. e\<lparr>metadata := g e\<rparr>) (map_of (entries db) c)"
proof -
  have "map_of (map (\<lambda>(c, e). (c, e\<lparr>metadata := g e\<rparr>)) xs) c
      = map_option (\<lambda>e. e\<lparr>metadata := g e\<rparr>) (map_of xs c)" for xs
    by (induction xs) auto
  then show ?thesis by (simp add: remeta_def)
qed

lemma map_filter_remeta:
  "List.map_filter (map_of (entries (remeta g db))) ids
     = map (\<lambda>e. e\<lparr>metadata := g e\<rparr>) (List.map_filter (map_of (entries db)) ids)"
  by (induction ids) (auto simp: map_of_remeta split: option.splits)

lemma candidates_remeta:
  "candidates (remeta g db) f = map (\<lambda>e. e\<lparr>metadata := g e\<rparr>) (candidates db f)"
proof (cases "f = []")
  case True
  then show ?thesis
    by (simp add: candidates_def remeta_def case_prod_unfold comp_def)
next
  case False
  have "doc_index (remeta g db) = doc_index db" by (simp add: remeta_def)
  with False show ?thesis
    by (simp add: candidates_def map_filter_remeta split: option.splits)
qed

lemma scored_remeta:
  "scored q (remeta g db) f = map (\<lambda>p. (fst p, (snd p)\<lparr>metadata := g (snd p)\<rparr>)) (scored q db f)"
  by (simp add: scored_def candidates_remeta comp_def)

lemma std_sort_map:
  assumes srt: "sorts_descending srt" and key: "\<And>p. fst (G p) = fst p"
  shows "std_sort srt (map G xs) = map G (std_sort srt xs)"
proof -
  have k: "map fst (map G xs) = map fst xs"
    by (simp add: key comp_def)
  have "\<forall>i \<in> set (srt (map fst xs)). i < length xs"
    using sorter_indices(2) [OF srt, of "map fst xs"] by simp
  then have "map (\<lambda>i. map G xs ! i) (srt (map fst xs)) = map (\<lambda>i. G (xs ! i)) (srt (map fst xs))"
    by (intro map_cong) simp_all
  then show ?thesis
    by (simp only: std_sort_def k) (simp add: comp_def)
qed

lemma result_json_remeta:
  "result_json (to_result (fst p, (snd p)\<lparr>metadata := m\<rparr>)) = result_json (to_result p)"
  by (simp add: result_json_def to_result_def)

lemma search_json_remeta:
  assumes srt: "sorts_descending srt"
  shows "map result_json (search srt q k f (remeta g db)) = map result_json (search srt q k f db)"
proof -
  let ?G = "\<lambda>p :: real \<times> VectorEntry. (fst p, (snd p)\<lparr>metadata := g (snd p)\<rparr>)"
  have "std_sort srt (scored q (remeta g db) f) = map ?G (std_sort srt (scored q db f))"
    by (simp only: scored_remeta) (rule std_sort_map [OF srt], simp)
  then have "search srt q k f (remeta g db) = map to_result (map ?G (take (nat k) (std_sort srt (scored q db f))))"
    by (simp add: search_eq take_map)
  then show ?thesis
    by (simp add: search_eq comp_def result_json_remeta)
qed

lemma handle_search_remeta:
  assumes srt: "sorts_descending srt"
  shows "response_of (handle_search srt h request (remeta g db))
           = response_of (handle_search srt h request db)"
  by (simp add: handle_search_def response_of_def Let_def search_json_remeta [OF srt]
      split: sum.splits)

lemma handle_search_shape:
  assumes "handle_search srt h request db = Inr (response, db')"
  shows "response = error_response ''search requires query'' \<or>
         (\<exists>rs. response = JObject [(''status'', JString ''ok''), (''results'', JArray rs)] \<and>
            (\<forall>r \<in> set rs. \<exists>c s t. r = JObject [(''chunk_id'', JString c), (''score'', JFloat s),
                                               (''text'', JString t)]))"
  using assms
  by (auto simp: handle_search_def Let_def result_json_def split: if_splits sum.splits)

text \<open>
  Claim C1. For a request whose action is \<open>search\<close>, a response that \<open>dispatch\<close> returns
  is the error for a missing query or has the members \<open>status\<close> and \<open>results\<close>, each result
  an object of exactly the members \<open>chunk_id\<close>, \<open>score\<close> and \<open>text\<close>, a string, a number
  and a string. Whatever metadata the entries hold, the response is the same: replacing the
  metadata of every entry of the store changes neither the response nor the exception.
\<close>

theorem search_response_omits_metadata:
  assumes srt: "sorts_descending srt" and act: "at_key request ''action'' = JString ''search''"
  shows "(\<forall>response db'. dispatch srt h request db = Inr (response, db') \<longrightarrow>
            response = error_response ''search requires query'' \<or>
            (\<exists>rs. response = JObject [(''status'', JString ''ok''), (''results'', JArray rs)] \<and>
               (\<forall>r \<in> set rs. \<exists>c s t.
                  r = JObject [(''chunk_id'', JString c), (''score'', JFloat s),
                               (''text'', JString t)]))) \<and>
         response_of (dispatch srt h request (remeta g db))
           = response_of (dispatch srt h request db)"
  using handle_search_shape [of srt h request db] handle_search_remeta [OF srt, of h request g db]
  by (simp add: dispatch_search [OF act])


lemma length_search:
  "sorts_descending srt \<Longrightarrow>
     length (search srt q k f db) = min (nat k) (length (candidates db f))"
  by (simp add: search_eq length_std_sort scored_def min.commute)

theorem search_response_omits_metadata_witness:
  "sorts_descending stable_sorter \<and>
   at_key search_request ''action'' = JString ''search'' \<and>
   metadata entry_c1 = JObject [(''page'', JInt 1)] \<and>
   dispatch stable_sorter length search_request two_docs
     = Inr (JObject [(''status'', JString ''ok''),
                     (''results'', JArray (map result_json
                        (search stable_sorter (embed length ''cat sat'') 5 [] two_docs)))],
            two_docs) \<and>
   length (search stable_sorter (embed length ''cat sat'') 5 [] two_docs) = 2 \<and>
   (\<exists>c s t. hd (map result_json (search stable_sorter (embed length ''cat sat'') 5 [] two_docs))
      = JObject [(''chunk_id'', JString c), (''score'', JFloat s), (''text'', JString t)]) \<and>
   response_of (dispatch stable_sorter length search_request
                  (remeta (\<lambda>e. JString ''secret'') two_docs))
     = response_of (dispatch stable_sorter length search_request two_docs)"
proof -
  let ?rs = "search stable_sorter (embed length ''cat sat'') 5 [] two_docs"
  have act: "at_key search_request ''action'' = JString ''search''"
    by (simp add: search_request_def)
  note T = search_response_omits_metadata [OF stable_sorter_sorts act, of length two_docs
      "\<lambda>e. JString ''secret''"]
  have d: "dispatch stable_sorter length search_request two_docs
     = Inr (JObject [(''status'', JString ''ok''),
                     (''results'', JArray (map result_json ?rs))], two_docs)"
    by (simp add: dispatch_def handle_search_def search_request_def)
  have len: "length ?rs = 2"
    by (simp add: length_search [OF stable_sorter_sorts] candidates_two_docs)
  then have ne: "hd (map result_json ?rs) \<in> set (map result_json ?rs)"
    by (intro hd_in_set) auto
  from T d have "\<forall>r \<in> set (map result_json ?rs). \<exists>c s t.
      r = JObject [(''chunk_id'', JString c), (''score'', JFloat s), (''text'', JString t)]"
    by (simp add: error_response_def)
  from this ne have h: "\<exists>c s t. hd (map result_json ?rs)
      = JObject [(''chunk_id'', JString c), (''score'', JFloat s), (''text'', JString t)]"
    by (rule bspec)
  have m: "metadata entry_c1 = JObject [(''page'', JInt 1)]"
    by (simp add: entry_c1_def)
  from T have same: "response_of (dispatch stable_sorter length search_request
                  (remeta (\<lambda>e. JString ''secret'') two_docs))
     = response_of (dispatch stable_sorter length search_request two_docs)"
    by (rule conjunct2)
  from stable_sorter_sorts act m d len h same show ?thesis
    by (intro conjI)
qed




subsection \<open>Framing: the header and the read loop\<close>

lemma or_push8:
  fixes x y :: nat
  assumes "y < 256"
  shows "push_bit 8 x OR y = x * 256 + y"
proof -
  have "take_bit 8 y = y" using assms by (simp add: take_bit_nat_eq_self_iff)
  then have "push_bit 8 x OR y = push_bit 8 x OR take_bit 8 y" by simp
  also have "\<dots> = push_bit 8 x + take_bit 8 y"
    by (rule disjunctive_add [symmetric]) (auto simp: bit_simps)
  finally show ?thesis using \<open>take_bit 8 y = y\<close> by (simp add: push_bit_eq_mult)
qed

lemma be32_nat:
  fixes a b c d :: nat
  assumes "a < 256" "b < 256" "c < 256" "d < 256"
  shows "push_bit 24 a OR push_bit 16 b OR push_bit 8 c OR d
           = ((a * 256 + b) * 256 + c) * 256 + d"
proof -
  have "push_bit 24 a OR push_bit 16 b OR push_bit 8 c OR d
      = push_bit 8 (push_bit 8 (push_bit 8 a OR b) OR c) OR d"
    by (simp add: or.assoc)
  with assms show ?thesis by (simp add: or_push8)
qed

lemma four_bytes_bound:
  fixes a b c d :: nat
  assumes "a < 256" "b < 256" "c < 256" "d < 256"
  shows "((a * 256 + b) * 256 + c) * 256 + d < 2 ^ 32"
proof -
  from assms have "a * 256 + b < 256 * 256" by simp
  then have "(a * 256 + b) * 256 + c < 256 * 256 * 256" using assms by simp
  then have "((a * 256 + b) * 256 + c) * 256 + d < 256 * 256 * 256 * 256" using assms by simp
  then show ?thesis by simp
qed

lemma be32_value:
  "unat (be32 [b0, b1, b2, b3])
     = ((of_char b0 * 256 + of_char b1) * 256 + of_char b2) * 256 + of_char b3"
proof -
  define n :: nat where "n = push_bit 24 (of_char b0 :: nat) OR push_bit 16 (of_char b1)
      OR push_bit 8 (of_char b2) OR of_char b3"
  have e: "be32 [b0, b1, b2, b3] = word_of_nat n"
    by (simp add: n_def be32_def of_nat_or_eq of_nat_of_char flip: push_bit_of_nat)
  have v: "n = ((of_char b0 * 256 + of_char b1) * 256 + of_char b2) * 256 + of_char b3"
    unfolding n_def by (rule be32_nat) simp_all
  have "n < 2 ^ 32"
    unfolding v by (rule four_bytes_bound) simp_all
  then have "unat (word_of_nat n :: 32 word) = n"
    by (simp add: unat_of_nat)
  with e have "unat (be32 [b0, b1, b2, b3]) = n"
    by (simp only:)
  with v show ?thesis by (simp only:)
qed


lemma read_exact_prefix:
  "read_exact want segs = Some (bytes, left) \<Longrightarrow>
     length bytes = want \<and> bytes @ concat left = concat segs"
proof (induction want segs arbitrary: bytes left rule: read_exact.induct)
  case (1 want segs)
  show ?case
  proof (cases "want = 0")
    case True
    with "1.prems" show ?thesis by (simp add: read_exact.simps)
  next
    case False
    with "1.prems" obtain seg rest where segs: "segs = seg # rest" and seg: "seg \<noteq> []"
      by (cases segs) (auto simp: read_exact.simps [of want] split: if_splits)
    let ?next = "if drop want seg = [] then rest else drop want seg # rest"
    from "1.prems" False segs seg obtain more left'
      where rec: "read_exact (want - length (take want seg)) ?next = Some (more, left')"
        and res: "bytes = take want seg @ more" "left = left'"
      by (auto simp: read_exact.simps [of want] split: option.splits)
    from "1.IH" [OF False segs seg rec]
    have ih: "length more = want - length (take want seg)" "more @ concat left' = concat ?next"
      by simp_all
    have "concat ?next = drop want seg @ concat rest" by simp
    with ih res segs show ?thesis
      by (simp add: min_def)
  qed
qed

subsection \<open>Connections and the accept loop\<close>

lemma on_exception_cases:
  "on_exception dump e w db
     = (case dump (error_response (what e)) of
          Inl e' \<Rightarrow> Inr (None, db)
        | Inr body \<Rightarrow>
            (case w of
               WriteOk \<Rightarrow> Inr (Some (error_response (what e)), db)
             | WriteSigpipe \<Rightarrow> Inl Killed
             | _ \<Rightarrow> Inr (None, db)))"
  unfolding on_exception_def Let_def
  by (cases "dump (error_response (what e))"; cases w) simp_all

lemma on_exception_returns:
  assumes "w \<noteq> WriteSigpipe"
  shows "\<exists>out. on_exception dump e w db = Inr (out, db) \<and>
           (out = None \<or> out = Some (error_response (what e)))"
  using assms unfolding on_exception_cases
  by (cases "dump (error_response (what e))"; cases w) simp_all

lemma on_exception_not_thrown: "on_exception dump e w db \<noteq> Inl (Thrown e')"
  unfolding on_exception_cases
  by (cases "dump (error_response (what e))"; cases w) simp_all

lemma on_exception_sigpipe:
  "dump (error_response (what e)) = Inr body \<Longrightarrow> on_exception dump e WriteSigpipe db = Inl Killed"
  by (simp add: on_exception_cases)

lemma run_Accepted_returned:
  "handle_connection parse dump srt h db conn = Inr (out, db') \<Longrightarrow>
     run parse dump srt h db (Accepted conn # evs)
       = (case run parse dump srt h db' evs of
            Inl a \<Rightarrow> Inl a
          | Inr (responses, final) \<Rightarrow> Inr (out # responses, final))"
  by simp

lemma run_Accepted_aborted:
  "handle_connection parse dump srt h db conn = Inl a \<Longrightarrow>
     run parse dump srt h db (Accepted conn # evs) = Inl a"
  by simp

lemma handle_connection_sigpipe:
  assumes w: "write1 conn = WriteSigpipe" and d: "\<forall>j. \<exists>body. dump j = Inr body"
  shows "handle_connection parse dump srt h db conn = Inl Killed"
proof -
  have ex: "on_exception dump e (write1 conn) db0 = Inl Killed" for e db0
    using d w on_exception_sigpipe [of dump e _ db0] by (metis (no_types))
  show ?thesis
  proof (cases "read_message (reads conn)")
    case (Inl e)
    then show ?thesis by (simp add: handle_connection_def ex)
  next
    case msg: (Inr msg)
    show ?thesis
    proof (cases "parse msg")
      case (Inl m)
      from d obtain body where "dump (error_response (''JSON parse error: '' @ m)) = Inr body"
        by blast
      with msg Inl w show ?thesis
        by (simp add: handle_connection_def on_parse_error_def Let_def)
    next
      case req: (Inr request)
      show ?thesis
      proof (cases "dispatch srt h request db")
        case (Inl e)
        with msg req show ?thesis by (simp add: handle_connection_def ex)
      next
        case (Inr p)
        obtain response db1 where p: "p = (response, db1)" by (cases p)
        from d obtain body where "dump response = Inr body" by blast
        with msg req Inr p w show ?thesis
          by (simp add: handle_connection_def)
      qed
    qed
  qed
qed

text \<open>
  Claim C4 does not hold of the server for every peer. When the four header bytes of a
  connection (the first four bytes of its stream, \<open>read_exact_prefix\<close>) declare a length
  (their big-endian value, \<open>be32_value\<close>) of 0 or of more than 10 MiB, \<open>read_message\<close>
  throws before the body is read, parsed or dispatched, and the handler writes an error
  response. If that write completes or fails with an error, \<open>handle_connection\<close> returns
  with the store it was given, whatever the parser and \<open>dump\<close> do, and the accept loop goes
  on with the events that follow, from the same store. If the peer has closed and the write
  raises \<^verbatim>\<open>SIGPIPE\<close>, the process ends: the connections that follow are not served.
\<close>

theorem bad_length_aborts_connection:
  assumes hdr: "read_exact 4 (reads conn) = Some (len_buf, rest)"
    and bad: "be32 len_buf = 0 \<or> 10 * 1024 * 1024 < be32 len_buf"
  shows "(let e = RuntimeError (''Invalid message length: '' @ to_string (unat (be32 len_buf)));
              err = error_response (what e)
          in read_message (reads conn) = Inl e \<and>
             (write1 conn \<noteq> WriteSigpipe \<longrightarrow>
                (\<exists>out. (out = None \<or> out = Some err) \<and>
                   handle_connection parse dump srt h db conn = Inr (out, db) \<and>
                   run parse dump srt h db (Accepted conn # evs)
                     = (case run parse dump srt h db evs of
                          Inl a \<Rightarrow> Inl a
                        | Inr (responses, final) \<Rightarrow> Inr (out # responses, final)))) \<and>
             (write1 conn = WriteSigpipe \<and> dump err = Inr body \<longrightarrow>
                handle_connection parse dump srt h db conn = Inl Killed \<and>
                run parse dump srt h db (Accepted conn # evs) = Inl Killed))"
proof -
  let ?e = "RuntimeError (''Invalid message length: '' @ to_string (unat (be32 len_buf)))"
  let ?err = "error_response (what ?e)"
  from hdr bad have r: "read_message (reads conn) = Inl ?e"
    by (auto simp: read_message_def Let_def)
  then have hc: "handle_connection parse dump srt h db conn
      = on_exception dump ?e (write1 conn) db"
    by (simp add: handle_connection_def)
  have ok: "\<exists>out. (out = None \<or> out = Some ?err) \<and>
      handle_connection parse dump srt h db conn = Inr (out, db) \<and>
      run parse dump srt h db (Accepted conn # evs)
        = (case run parse dump srt h db evs of
             Inl a \<Rightarrow> Inl a
           | Inr (responses, final) \<Rightarrow> Inr (out # responses, final))"
    if "write1 conn \<noteq> WriteSigpipe"
  proof -
    from on_exception_returns [OF that, of dump ?e db] obtain out
      where out: "on_exception dump ?e (write1 conn) db = Inr (out, db)"
        "out = None \<or> out = Some ?err"
      by blast
    from out(1) have c: "handle_connection parse dump srt h db conn = Inr (out, db)"
      by (simp only: hc)
    from out(2) c run_Accepted_returned [OF c, of evs] show ?thesis
      by (intro exI [of _ out] conjI)
  qed
  have killed: "handle_connection parse dump srt h db conn = Inl Killed \<and>
      run parse dump srt h db (Accepted conn # evs) = Inl Killed"
    if "write1 conn = WriteSigpipe \<and> dump ?err = Inr body"
  proof -
    from that have "on_exception dump ?e (write1 conn) db = Inl Killed"
      by (simp add: on_exception_sigpipe)
    then have c: "handle_connection parse dump srt h db conn = Inl Killed"
      by (simp only: hc)
    from c run_Accepted_aborted [OF c, of evs] show ?thesis
      by (intro conjI)
  qed
  show ?thesis
    unfolding Let_def
    by (intro conjI impI; (rule r | erule ok | (drule killed, elim conjE, assumption)))
qed

theorem bad_length_aborts_connection_witness:
  "read_exact 4 (reads zero_length_conn) = Some ([CHR 0x00, CHR 0x00, CHR 0x00, CHR 0x00], []) \<and>
   be32 [CHR 0x00, CHR 0x00, CHR 0x00, CHR 0x00] = 0 \<and>
   read_exact 4 (reads oversized_conn)
     = Some ([CHR 0x00, CHR 0xB0, CHR 0x00, CHR 0x00], [[CHR ''x'']]) \<and>
   10 * 1024 * 1024 < be32 [CHR 0x00, CHR 0xB0, CHR 0x00, CHR 0x00] \<and>
   unat (be32 [CHR 0x00, CHR 0xB0, CHR 0x00, CHR 0x00]) = 11 * 1024 * 1024 \<and>
   write1 zero_length_conn \<noteq> WriteSigpipe \<and> write1 oversized_conn \<noteq> WriteSigpipe \<and>
   handle_connection sample_parse sample_dump stable_sorter length two_docs zero_length_conn
     = Inr (Some (error_response ''Invalid message length: 0''), two_docs) \<and>
   handle_connection sample_parse sample_dump stable_sorter length two_docs oversized_conn
     = Inr (None, two_docs) \<and>
   run sample_parse sample_dump stable_sorter length two_docs
       [Accepted zero_length_conn, Accepted oversized_conn, Accepted store_conn]
     = Inr ([Some (error_response ''Invalid message length: 0''), None, Some ok_response],
            store ''c3'' ''d1'' ''cat nap'' (JObject []) (embed length ''cat nap'') two_docs) \<and>
   read_exact 4 (reads closed_peer_conn) = Some ([CHR 0x00, CHR 0x00, CHR 0x00, CHR 0x00], []) \<and>
   write1 closed_peer_conn = WriteSigpipe \<and>
   sample_dump (error_response ''Invalid message length: 0'') = Inr ''object'' \<and>
   handle_connection sample_parse sample_dump stable_sorter length two_docs closed_peer_conn
     = Inl Killed \<and>
   run sample_parse sample_dump stable_sorter length two_docs
       [Accepted closed_peer_conn, Accepted store_conn]
     = Inl Killed"
proof -
  note T = bad_length_aborts_connection [where parse = sample_parse and dump = sample_dump
      and srt = stable_sorter and h = length and db = two_docs]
  let ?z = "[CHR 0x00, CHR 0x00, CHR 0x00, CHR 0x00]"
  let ?o = "[CHR 0x00, CHR 0xB0, CHR 0x00, CHR 0x00]"
  let ?db' = "store ''c3'' ''d1'' ''cat nap'' (JObject []) (embed length ''cat nap'') two_docs"
  let ?err = "error_response ''Invalid message length: 0''"
  have z: "read_exact 4 (reads zero_length_conn) = Some (?z, [])" "be32 ?z = 0"
    by (simp_all add: zero_length_conn_def read_exact.simps be32_def)
  have ov: "be32 ?o = 11534336"
    by (simp add: be32_def)
  have o: "read_exact 4 (reads oversized_conn) = Some (?o, [[CHR ''x'']])"
    "10 * 1024 * 1024 < be32 ?o" "unat (be32 ?o) = 11 * 1024 * 1024"
    by (simp_all add: oversized_conn_def read_exact.simps ov)
  have p: "read_exact 4 (reads closed_peer_conn) = Some (?z, [])"
    by (simp add: closed_peer_conn_def read_exact.simps)
  have w: "write1 zero_length_conn \<noteq> WriteSigpipe" "write1 oversized_conn \<noteq> WriteSigpipe"
    "write1 closed_peer_conn = WriteSigpipe"
    by (simp_all add: zero_length_conn_def oversized_conn_def closed_peer_conn_def)
  have t0: "to_string 0 = ''0''"
    by (simp add: to_string.simps char_of_eq_iff)
  have d: "sample_dump ?err = Inr ''object''"
    by (simp add: sample_dump_def error_response_def)
  have hz0: "handle_connection sample_parse sample_dump stable_sorter length two_docs
      zero_length_conn = Inr (Some ?err, two_docs)"
    by (simp add: handle_connection_def read_message_def z Let_def on_exception_cases t0 d
        zero_length_conn_def [THEN arg_cong, of write1])
  have ho0: "handle_connection sample_parse sample_dump stable_sorter length two_docs
      oversized_conn = Inr (None, two_docs)"
    by (simp add: handle_connection_def read_message_def o(1) ov Let_def on_exception_cases
        sample_dump_def oversized_conn_def [THEN arg_cong, of write1])
  have s: "run sample_parse sample_dump stable_sorter length two_docs [Accepted store_conn]
      = Inr ([Some ok_response], ?db')"
    by (simp add: store_conn_def handle_connection_def read_message_frame sample_parse_def
        sample_dump_def dispatch_def handle_store_def store_request_def)
  from T [OF z(1) disjI1 [OF z(2)], unfolded Let_def, THEN conjunct2, THEN conjunct1, THEN mp,
      OF w(1), of "[Accepted oversized_conn, Accepted store_conn]"]
  obtain out1 where hz: "handle_connection sample_parse sample_dump stable_sorter length
        two_docs zero_length_conn = Inr (out1, two_docs)"
    and rz: "run sample_parse sample_dump stable_sorter length two_docs
        (Accepted zero_length_conn # [Accepted oversized_conn, Accepted store_conn])
      = (case run sample_parse sample_dump stable_sorter length two_docs
               [Accepted oversized_conn, Accepted store_conn] of
           Inl a \<Rightarrow> Inl a
         | Inr (responses, final) \<Rightarrow> Inr (out1 # responses, final))"
    by blast
  from hz hz0 have out1: "out1 = Some ?err" by simp
  from T [OF o(1) disjI2 [OF o(2)], unfolded Let_def, THEN conjunct2, THEN conjunct1, THEN mp,
      OF w(2), of "[Accepted store_conn]"]
  obtain out2 where ho: "handle_connection sample_parse sample_dump stable_sorter length
        two_docs oversized_conn = Inr (out2, two_docs)"
    and ro: "run sample_parse sample_dump stable_sorter length two_docs
        (Accepted oversized_conn # [Accepted store_conn])
      = (case run sample_parse sample_dump stable_sorter length two_docs [Accepted store_conn] of
           Inl a \<Rightarrow> Inl a
         | Inr (responses, final) \<Rightarrow> Inr (out2 # responses, final))"
    by blast
  from ho ho0 have out2: "out2 = None" by simp
  from ro s out2
  have ro': "run sample_parse sample_dump stable_sorter length two_docs
      [Accepted oversized_conn, Accepted store_conn] = Inr ([None, Some ok_response], ?db')"
    by (simp only: sum.case prod.case)
  from rz ro' out1
  have r: "run sample_parse sample_dump stable_sorter length two_docs
       [Accepted zero_length_conn, Accepted oversized_conn, Accepted store_conn]
     = Inr ([Some ?err, None, Some ok_response], ?db')"
    by (simp only: sum.case prod.case)
  from d have d': "sample_dump (error_response (what (RuntimeError
      (''Invalid message length: '' @ to_string (unat (be32 ?z)))))) = Inr ''object''"
    by (simp add: z(2) t0)
  from T [OF p disjI1 [OF z(2)], unfolded Let_def, THEN conjunct2, THEN conjunct2, THEN mp,
      OF conjI [OF w(3) d'], of "[Accepted store_conn]"]
  have k: "handle_connection sample_parse sample_dump stable_sorter length two_docs
      closed_peer_conn = Inl Killed"
    "run sample_parse sample_dump stable_sorter length two_docs
       [Accepted closed_peer_conn, Accepted store_conn] = Inl Killed"
    by (rule conjunct1, rule conjunct2)
  from z o w(1,2) hz0 ho0 r p w(3) d k show ?thesis
    by (intro conjI)
qed

lemma on_parse_error_cases:
  "on_parse_error dump m w db
     = (case dump (error_response (''JSON parse error: '' @ m)) of
          Inl e' \<Rightarrow> Inl (Thrown e')
        | Inr body \<Rightarrow>
            (case write_message w body of
               Inl a \<Rightarrow> Inl a
             | Inr u \<Rightarrow> Inr (Some (error_response (''JSON parse error: '' @ m)), db)))"
  unfolding on_parse_error_def Let_def by (rule refl)

lemma on_parse_error_thrown_iff:
  "on_parse_error dump m w db = Inl (Thrown e) \<longleftrightarrow>
     dump (error_response (''JSON parse error: '' @ m)) = Inl e \<or>
     (\<exists>body. dump (error_response (''JSON parse error: '' @ m)) = Inr body \<and>
        write_message w body = Inl (Thrown e))"
  unfolding on_parse_error_cases
  by (cases "dump (error_response (''JSON parse error: '' @ m))"; cases w) simp_all

lemma handle_connection_thrown_iff:
  "handle_connection parse dump srt h db conn = Inl (Thrown e) \<longleftrightarrow>
     (\<exists>msg m. read_message (reads conn) = Inr msg \<and> parse msg = Inl m \<and>
        (dump (error_response (''JSON parse error: '' @ m)) = Inl e \<or>
         (\<exists>body. dump (error_response (''JSON parse error: '' @ m)) = Inr body \<and>
            write_message (write1 conn) body = Inl (Thrown e))))"
proof (cases "read_message (reads conn)")
  case (Inl e')
  then show ?thesis
    by (simp add: handle_connection_def on_exception_not_thrown)
next
  case msg: (Inr msg)
  show ?thesis
  proof (cases "parse msg")
    case (Inl m)
    with msg show ?thesis
      by (simp add: handle_connection_def on_parse_error_thrown_iff)
  next
    case (Inr request)
    with msg show ?thesis
      by (simp add: handle_connection_def on_exception_not_thrown
          split: sum.splits prod.splits abort.splits)
  qed
qed

text \<open>
  Claim C2 does not hold of \<^verbatim>\<open>handle_connection\<close>. An exception leaves it in exactly one
  case: the body was read, the parser rejected it, and the dump or the write of the error
  response threw; the handler of \<^verbatim>\<open>parse_error\<close> has no \<^verbatim>\<open>try\<close> around its
  \<^verbatim>\<open>write_message\<close>, unlike the handler of \<^verbatim>\<open>std::exception\<close> beside it. Whatever ends
  \<open>handle_connection\<close> without a return ends \<open>run\<close> as well: the connections that follow
  are not served. Apart from the exception, a peer that has closed when the first response
  is written ends the process by \<^verbatim>\<open>SIGPIPE\<close>, whatever the request was.
\<close>

theorem parse_error_write_failure_escapes:
  "(handle_connection parse dump srt h db conn = Inl (Thrown e) \<longleftrightarrow>
      (\<exists>msg m. read_message (reads conn) = Inr msg \<and> parse msg = Inl m \<and>
         (dump (error_response (''JSON parse error: '' @ m)) = Inl e \<or>
          (\<exists>body. dump (error_response (''JSON parse error: '' @ m)) = Inr body \<and>
             write_message (write1 conn) body = Inl (Thrown e))))) \<and>
   (handle_connection parse dump srt h db conn = Inl a \<longrightarrow>
      run parse dump srt h db (Accepted conn # evs) = Inl a) \<and>
   (write1 conn = WriteSigpipe \<and> (\<forall>j. \<exists>body. dump j = Inr body) \<longrightarrow>
      handle_connection parse dump srt h db conn = Inl Killed)"
proof (intro conjI impI)
  show "handle_connection parse dump srt h db conn = Inl (Thrown e) \<longleftrightarrow>
      (\<exists>msg m. read_message (reads conn) = Inr msg \<and> parse msg = Inl m \<and>
         (dump (error_response (''JSON parse error: '' @ m)) = Inl e \<or>
          (\<exists>body. dump (error_response (''JSON parse error: '' @ m)) = Inr body \<and>
             write_message (write1 conn) body = Inl (Thrown e))))"
    by (rule handle_connection_thrown_iff)
next
  assume "handle_connection parse dump srt h db conn = Inl a"
  then show "run parse dump srt h db (Accepted conn # evs) = Inl a"
    by (rule run_Accepted_aborted)
next
  assume "write1 conn = WriteSigpipe \<and> (\<forall>j. \<exists>body. dump j = Inr body)"
  then show "handle_connection parse dump srt h db conn = Inl Killed"
    by (elim conjE) (rule handle_connection_sigpipe)
qed

theorem parse_error_write_failure_escapes_witness:
  "read_message (reads garbled_conn) = Inr ''{'' \<and>
   sample_parse ''{'' = Inl ''syntax error'' \<and>
   sample_dump (error_response (''JSON parse error: '' @ ''syntax error'')) = Inr ''object'' \<and>
   write_message (write1 garbled_conn) ''object''
     = Inl (Thrown (RuntimeError ''Failed to write message length'')) \<and>
   handle_connection sample_parse sample_dump stable_sorter length two_docs garbled_conn
     = Inl (Thrown (RuntimeError ''Failed to write message length'')) \<and>
   run sample_parse sample_dump stable_sorter length two_docs
       [Accepted garbled_conn, Accepted store_conn]
     = Inl (Thrown (RuntimeError ''Failed to write message length'')) \<and>
   write1 closed_peer_conn = WriteSigpipe \<and>
   handle_connection sample_parse sample_dump stable_sorter length two_docs closed_peer_conn
     = Inl Killed"
proof -
  let ?x = "Thrown (RuntimeError ''Failed to write message length'')"
  note T = parse_error_write_failure_escapes [of sample_parse sample_dump stable_sorter length
      two_docs garbled_conn "RuntimeError ''Failed to write message length''" ?x
      "[Accepted store_conn]"]
  note K = parse_error_write_failure_escapes [of sample_parse sample_dump stable_sorter length
      two_docs closed_peer_conn]
  have r: "read_message (reads garbled_conn) = Inr ''{''"
    by (simp add: garbled_conn_def read_message_frame)
  have p: "sample_parse ''{'' = Inl ''syntax error''"
    by (simp add: sample_parse_def)
  have d: "sample_dump (error_response (''JSON parse error: '' @ ''syntax error'')) = Inr ''object''"
    by (simp add: sample_dump_def error_response_def)
  have w: "write_message (write1 garbled_conn) ''object'' = Inl ?x"
    by (simp add: garbled_conn_def)
  from r p d w have "\<exists>msg m. read_message (reads garbled_conn) = Inr msg \<and>
      sample_parse msg = Inl m \<and>
      (sample_dump (error_response (''JSON parse error: '' @ m))
         = Inl (RuntimeError ''Failed to write message length'') \<or>
       (\<exists>body. sample_dump (error_response (''JSON parse error: '' @ m)) = Inr body \<and>
          write_message (write1 garbled_conn) body = Inl ?x))"
    by (intro exI conjI disjI2)
  with T [THEN conjunct1]
  have h: "handle_connection sample_parse sample_dump stable_sorter length two_docs garbled_conn
     = Inl ?x"
    by (rule iffD2)
  from T [THEN conjunct2, THEN conjunct1, THEN mp, OF h]
  have u: "run sample_parse sample_dump stable_sorter length two_docs
      [Accepted garbled_conn, Accepted store_conn] = Inl ?x" .
  have c: "write1 closed_peer_conn = WriteSigpipe"
    by (simp add: closed_peer_conn_def)
  have "\<forall>j. \<exists>body. sample_dump j = Inr body"
    by (simp add: sample_dump_def)
  with c K [THEN conjunct2, THEN conjunct2]
  have k: "handle_connection sample_parse sample_dump stable_sorter length two_docs
      closed_peer_conn = Inl Killed"
    by (simp only: simp_thms)
  from r p d w h u c k show ?thesis
    by (intro conjI)
qed

section \<open>Properties of the embedder\<close>

lemma length_bump [simp]: "length (bump h token vec) = length vec"
  by (simp add: bump_def Let_def)

lemma scan_tokens:
  "(case embed_scan h txt token vec of
      (token', vec') \<Rightarrow> if token' \<noteq> [] then bump h token' vec' else vec')
     = foldl (\<lambda>v t. bump h t v) vec (tokens_from txt token)"
  by (induction "txt" arbitrary: token vec) simp_all

lemma embed_counts_tokens:
  "embed_counts h txt = foldl (\<lambda>v t. bump h t v) (replicate EMBED_DIM 0) (tokenize txt)"
  using scan_tokens [of h "txt" "[]" "replicate EMBED_DIM 0"]
  by (simp add: embed_counts_def tokenize_def)

lemma length_foldl_bump [simp]: "length (foldl (\<lambda>v t. bump h t v) vec toks) = length vec"
  by (induction toks arbitrary: vec) simp_all

lemma length_embed_counts [simp]: "length (embed_counts h txt) = EMBED_DIM"
  by (simp add: embed_counts_tokens)
















end
